theory Spec2Isabelle
  imports Complex_Main
begin

section \<open>Arrays\<close>

text \<open>
  The program computes with numpy arrays of complex numbers. A two-dimensional array is
  a shape together with its entries in row-major order, as numpy stores it. Entries are
  exact complex numbers: rounding is not part of this development.
\<close>

record mat =
  nrows :: nat
  ncols :: nat
  elems :: "complex list"

definition wf_mat :: "mat \<Rightarrow> bool" where
  "wf_mat A \<longleftrightarrow> length (elems A) = nrows A * ncols A"

definition has_shape :: "nat \<Rightarrow> nat \<Rightarrow> mat \<Rightarrow> bool" where
  "has_shape r c A \<longleftrightarrow> nrows A = r \<and> ncols A = c \<and> length (elems A) = r * c"

definition mk :: "nat \<Rightarrow> nat \<Rightarrow> (nat \<Rightarrow> nat \<Rightarrow> complex) \<Rightarrow> mat" where
  "mk r c f = \<lparr>nrows = r, ncols = c, elems = map (\<lambda>k. f (k div c) (k mod c)) [0..<r * c]\<rparr>"

definition ent :: "mat \<Rightarrow> nat \<Rightarrow> nat \<Rightarrow> complex" where
  "ent A i j = elems A ! (i * ncols A + j)"

text \<open>
  A value handed around by the program is a matrix or a scalar. The scalar stands for
  numpy's zero-dimensional results (\<^verbatim>\<open>np.sum([], 0)\<close> is \<^verbatim>\<open>0.0\<close>) and for the Python
  number \<^verbatim>\<open>1\<close> from which the tensor-product accumulators start.
\<close>

datatype nd = Sc complex | Mt mat

datatype error = ValueError | IndexError | TypeError | LinAlgError | SolverError

definition ebind :: "error + 'a \<Rightarrow> ('a \<Rightarrow> error + 'b) \<Rightarrow> error + 'b" where
  "ebind m f = (case m of Inl e \<Rightarrow> Inl e | Inr v \<Rightarrow> f v)"

text \<open>A list comprehension whose body may raise: the first exception ends it.\<close>

fun emap :: "('a \<Rightarrow> error + 'b) \<Rightarrow> 'a list \<Rightarrow> error + 'b list" where
  "emap f [] = Inr []"
| "emap f (x # xs) = ebind (f x) (\<lambda>y. ebind (emap f xs) (\<lambda>ys. Inr (y # ys)))"

definition nth_err :: "'a list \<Rightarrow> nat \<Rightarrow> error + 'a" where
  "nth_err xs i = (if i < length xs then Inr (xs ! i) else Inl IndexError)"

fun shape_of :: "nd \<Rightarrow> nat list" where
  "shape_of (Sc c) = []"
| "shape_of (Mt A) = [nrows A, ncols A]"

subsection \<open>numpy operations\<close>

definition mm :: "mat \<Rightarrow> mat \<Rightarrow> mat" where
  "mm A B = mk (nrows A) (ncols B)
     (\<lambda>i j. sum_list (map (\<lambda>k. ent A i k * ent B k j) [0..<ncols A]))"

text \<open>The operator \<^verbatim>\<open>@\<close>: both operands two-dimensional with matching inner sizes;
  numpy raises ValueError otherwise, also when one operand is a scalar. Between two
  scalars Python finds no \<^verbatim>\<open>@\<close> at all and raises TypeError.\<close>

fun matmul :: "nd \<Rightarrow> nd \<Rightarrow> error + nd" where
  "matmul (Mt A) (Mt B) = (if ncols A = nrows B then Inr (Mt (mm A B)) else Inl ValueError)"
| "matmul (Sc a) (Sc b) = Inl TypeError"
| "matmul _ _ = Inl ValueError"

definition scale :: "complex \<Rightarrow> mat \<Rightarrow> mat" where
  "scale a A = mk (nrows A) (ncols A) (\<lambda>i j. a * ent A i j)"

definition kron :: "mat \<Rightarrow> mat \<Rightarrow> mat" where
  "kron A B = mk (nrows A * nrows B) (ncols A * ncols B)
     (\<lambda>i j. ent A (i div nrows B) (j div ncols B) * ent B (i mod nrows B) (j mod ncols B))"

definition add_mat :: "mat \<Rightarrow> mat \<Rightarrow> mat" where
  "add_mat A B = mk (nrows A) (ncols A) (\<lambda>i j. ent A i j + ent B i j)"

definition conj_mat :: "mat \<Rightarrow> mat" where
  "conj_mat A = mk (nrows A) (ncols A) (\<lambda>i j. cnj (ent A i j))"

definition transpose_mat :: "mat \<Rightarrow> mat" where
  "transpose_mat A = mk (ncols A) (nrows A) (\<lambda>i j. ent A j i)"

definition dag_mat :: "mat \<Rightarrow> mat" where
  "dag_mat A = mk (ncols A) (nrows A) (\<lambda>i j. cnj (ent A j i))"

definition eye_mat :: "nat \<Rightarrow> mat" where
  "eye_mat d = mk d d (\<lambda>i j. if i = j then 1 else 0)"


fun np_conjugate :: "nd \<Rightarrow> nd" where
  "np_conjugate (Sc c) = Sc (cnj c)"
| "np_conjugate (Mt A) = Mt (conj_mat A)"

text \<open>Addition of two summands of \<^verbatim>\<open>np.sum\<close>; a scalar is broadcast.\<close>

fun nd_add :: "nd \<Rightarrow> nd \<Rightarrow> nd" where
  "nd_add (Sc a) (Sc b) = Sc (a + b)"
| "nd_add (Sc a) (Mt B) = Mt (mk (nrows B) (ncols B) (\<lambda>i j. a + ent B i j))"
| "nd_add (Mt A) (Sc b) = Mt (mk (nrows A) (ncols A) (\<lambda>i j. ent A i j + b))"
| "nd_add (Mt A) (Mt B) = Mt (add_mat A B)"

text \<open>
  \<^verbatim>\<open>np.sum(xs, 0)\<close> on a Python list of arrays: the list is stacked into one array, which
  needs equal shapes, and summed along the new first axis. The empty list is the empty
  one-dimensional array, whose sum is the scalar \<^verbatim>\<open>0.0\<close>.
\<close>

definition np_sum0 :: "nd list \<Rightarrow> error + nd" where
  "np_sum0 xs = (case xs of
       [] \<Rightarrow> Inr (Sc 0)
     | x # rest \<Rightarrow> if list_all (\<lambda>y. shape_of y = shape_of x) rest
                   then Inr (foldl nd_add x rest) else Inl ValueError)"

text \<open>\<^verbatim>\<open>itertools.product\<close> of a list of ranges: the last position varies fastest.\<close>

fun itertools_product :: "'a list list \<Rightarrow> 'a list list" where
  "itertools_product [] = [[]]"
| "itertools_product (xs # xss) =
     concat (map (\<lambda>x. map (\<lambda>t. x # t) (itertools_product xss)) xs)"

subsection \<open>Helpers of the package outside this module\<close>

text \<open>Modelled from the spec: \<^verbatim>\<open>tensor\<close> of \<^verbatim>\<open>qutipy.general_functions\<close>, the matrix
  tensor (Kronecker) product of the linear-algebra substrate, computed by \<^verbatim>\<open>np.kron\<close>;
  a scalar operand multiplies the other operand.\<close>

fun tensor :: "nd \<Rightarrow> nd \<Rightarrow> nd" where
  "tensor (Sc a) (Sc b) = Sc (a * b)"
| "tensor (Sc a) (Mt B) = Mt (scale a B)"
| "tensor (Mt A) (Sc b) = Mt (scale b A)"
| "tensor (Mt A) (Mt B) = Mt (kron A B)"

text \<open>Modelled from the spec: \<^verbatim>\<open>dag\<close> of \<^verbatim>\<open>qutipy.general_functions\<close>, the
  conjugate-transpose.\<close>

fun dag :: "nd \<Rightarrow> nd" where
  "dag (Sc c) = Sc (cnj c)"
| "dag (Mt A) = Mt (dag_mat A)"

text \<open>Modelled from the spec: \<^verbatim>\<open>eye\<close> of \<^verbatim>\<open>qutipy.general_functions\<close>, the identity
  matrix of the given dimension.\<close>

definition eye :: "nat \<Rightarrow> nd" where
  "eye d = Mt (eye_mat d)"

text \<open>Modelled from the spec: \<^verbatim>\<open>ket\<close> of \<^verbatim>\<open>qutipy.general_functions\<close>, the
  computational basis vector, a column.\<close>

definition ket :: "nat \<Rightarrow> nat \<Rightarrow> nd" where
  "ket d i = Mt (mk d 1 (\<lambda>r c. if r = i then 1 else 0))"


text \<open>Modelled from the spec: \<^verbatim>\<open>max_ent\<close> of \<^verbatim>\<open>qutipy.states\<close> with
  \<^verbatim>\<open>normalized=False\<close>: the outer product of the unnormalized maximally entangled
  vector on two copies of a \<open>d\<close>-dimensional space, the sum of the \<open>|i>|i>\<close>.\<close>

definition max_ent :: "nat \<Rightarrow> nd" where
  "max_ent d = Mt (mk (d * d) (d * d)
     (\<lambda>i j. if i div d = i mod d \<and> j div d = j mod d then 1 else 0))"

text \<open>The same vector as a column (\<^verbatim>\<open>as_matrix=False\<close>).\<close>

definition max_ent_vec :: "nat \<Rightarrow> nd" where
  "max_ent_vec d = Mt (mk (d * d) 1 (\<lambda>i j. if i div d = i mod d then 1 else 0))"

section \<open>General functions\<close>

text \<open>One summand \<^verbatim>\<open>K[i] @ rho @ dag(K[i])\<close>.\<close>

definition kraus_term :: "nd \<Rightarrow> nd \<Rightarrow> error + nd" where
  "kraus_term rho k = ebind (matmul k rho) (\<lambda>x. matmul x (dag k))"

text \<open>
  The inner loop of the subsystem branch of \<^verbatim>\<open>apply_channel\<close>, over the positions
  \<open>i\<close> of \<^verbatim>\<open>range(n)\<close>, with the state \<open>(l, X)\<close>.
\<close>

fun subsystem_op ::
  "nd list \<Rightarrow> nat list \<Rightarrow> nat list \<Rightarrow> nat list \<Rightarrow> nat list \<Rightarrow> nat \<Rightarrow> nd \<Rightarrow> error + nd" where
  "subsystem_op K sys dm index [] l X = Inr X"
| "subsystem_op K sys dm index (i # is) l X =
     (if i + 1 \<in> set sys
      then ebind (nth_err index l) (\<lambda>j. ebind (nth_err K j)
             (\<lambda>k. subsystem_op K sys dm index is (l + 1) (tensor X k)))
      else ebind (nth_err dm i)
             (\<lambda>d. subsystem_op K sys dm index is l (tensor X (eye d))))"

text \<open>
  \<^verbatim>\<open>apply_channel(K, rho, sys, dim, adjoint)\<close> on a numeric \<open>rho\<close> (the branch for an
  optimization variable converts it and calls the function again). With \<open>sys\<close> given
  and \<open>dim\<close> left at None, \<^verbatim>\<open>len(dim)\<close> raises TypeError.
\<close>

definition apply_channel ::
  "nd list \<Rightarrow> nd \<Rightarrow> nat list option \<Rightarrow> nat list option \<Rightarrow> bool \<Rightarrow> error + nd" where
  "apply_channel K0 rho sys dm adjoint =
     (let K = (if adjoint then map dag K0 else K0) in
      case sys of
        None \<Rightarrow> ebind (emap (kraus_term rho) K) np_sum0
      | Some s \<Rightarrow>
         (case dm of
            None \<Rightarrow> Inl TypeError
          | Some dims \<Rightarrow>
             (let n = length dims; k = length s;
                  indices = itertools_product (replicate k [0..<length K])
              in ebind (emap (\<lambda>index. subsystem_op K s dims index [0..<n] 0 (Sc 1)) indices)
                   (\<lambda>A. ebind (emap (kraus_term rho) A) np_sum0))))"

text \<open>The loop \<^verbatim>\<open>tmp = C[i][comb[i]] @ tmp\<close> of \<^verbatim>\<open>compose_channels\<close>.\<close>

fun compose_loop :: "nd list list \<Rightarrow> nat list \<Rightarrow> nat list \<Rightarrow> nd \<Rightarrow> error + nd" where
  "compose_loop C comb [] tmp = Inr tmp"
| "compose_loop C comb (i # is) tmp =
     ebind (nth_err C i) (\<lambda>c. ebind (nth_err comb i) (\<lambda>j. ebind (nth_err c j)
       (\<lambda>k. ebind (matmul k tmp) (\<lambda>tmp'. compose_loop C comb is tmp'))))"

text \<open>
  \<^verbatim>\<open>compose_channels(C)\<close>. The dimension is read from \<^verbatim>\<open>C[0][0].shape[0]\<close>, which
  raises IndexError when \<open>C\<close> or its first list is empty (and when the operator is a
  zero-dimensional array, whose shape is the empty tuple).
\<close>

definition compose_channels :: "nd list list \<Rightarrow> error + nd list" where
  "compose_channels C =
     ebind (nth_err C 0) (\<lambda>c0. ebind (nth_err c0 0) (\<lambda>k00. ebind (nth_err (shape_of k00) 0)
       (\<lambda>d. let lengths = map length C;
                 combs = itertools_product (map (\<lambda>len. [0..<len]) lengths)
             in emap (\<lambda>comb. compose_loop C comb [0..<length comb] (eye d)) combs)))"

text \<open>The loop \<^verbatim>\<open>tmp = tensor(tmp, C[i][comb[i]])\<close> of \<^verbatim>\<open>tensor_channels\<close>.\<close>

fun tensor_loop :: "nd list list \<Rightarrow> nat list \<Rightarrow> nat list \<Rightarrow> nd \<Rightarrow> error + nd" where
  "tensor_loop C comb [] tmp = Inr tmp"
| "tensor_loop C comb (i # is) tmp =
     ebind (nth_err C i) (\<lambda>c. ebind (nth_err comb i) (\<lambda>j. ebind (nth_err c j)
       (\<lambda>k. tensor_loop C comb is (tensor tmp k))))"

definition tensor_channels :: "nd list list \<Rightarrow> error + nd list" where
  "tensor_channels C =
     (let lengths = map length C;
          combs = itertools_product (map (\<lambda>len. [0..<len]) lengths)
      in emap (\<lambda>comb. tensor_loop C comb [0..<length comb] (Sc 1)) combs)"

text \<open>The loop \<^verbatim>\<open>tmp = tensor(tmp, K[comb[i]])\<close> of \<^verbatim>\<open>n_channel_uses\<close>.\<close>

fun uses_loop :: "nd list \<Rightarrow> nat list \<Rightarrow> nat list \<Rightarrow> nd \<Rightarrow> error + nd" where
  "uses_loop K comb [] tmp = Inr tmp"
| "uses_loop K comb (i # is) tmp =
     ebind (nth_err comb i) (\<lambda>j. ebind (nth_err K j)
       (\<lambda>k. uses_loop K comb is (tensor tmp k)))"

definition n_channel_uses :: "nd list \<Rightarrow> nat \<Rightarrow> error + nd list" where
  "n_channel_uses K n =
     (let r = length K;
          combs = itertools_product (replicate n [0..<r])
      in emap (\<lambda>comb. uses_loop K comb [0..<n] (Sc 1)) combs)"

section \<open>Channel representations\<close>

definition choi_representation :: "nd list \<Rightarrow> nat \<Rightarrow> error + nd" where
  "choi_representation K dA =
     (let Gamma = max_ent dA in apply_channel K Gamma (Some [2]) (Some [dA, dA]) False)"

definition natural_representation :: "nd list \<Rightarrow> error + nd" where
  "natural_representation K = np_sum0 (map (\<lambda>k. tensor k (np_conjugate k)) K)"

text \<open>
  \<^verbatim>\<open>choi_to_natural\<close> goes through an array of rank four. An array of any rank is its
  shape and its entries in row-major order; \<^verbatim>\<open>reshape\<close> keeps the entries and needs the
  sizes to agree, \<^verbatim>\<open>transpose(axes)\<close> moves the entry at the multi-index \<open>I\<close> to the
  multi-index \<open>J\<close> with \<open>J[m] = I[axes[m]]\<close>.
\<close>

type_synonym ndarray = "nat list \<times> complex list"

fun np_array :: "nd \<Rightarrow> ndarray" where
  "np_array (Sc c) = ([], [c])"
| "np_array (Mt A) = ([nrows A, ncols A], elems A)"

definition np_reshape :: "ndarray \<Rightarrow> nat list \<Rightarrow> error + ndarray" where
  "np_reshape a newshape =
     (if prod_list newshape = length (snd a) then Inr (newshape, snd a) else Inl ValueError)"

fun unravel :: "nat list \<Rightarrow> nat \<Rightarrow> nat list" where
  "unravel [] k = []"
| "unravel (d # ds) k = (k div prod_list ds) # unravel ds (k mod prod_list ds)"

definition ravel :: "nat list \<Rightarrow> nat list \<Rightarrow> nat" where
  "ravel shp idx = foldl (\<lambda>acc (d, i). acc * d + i) 0 (zip shp idx)"

definition position_of :: "nat \<Rightarrow> nat list \<Rightarrow> nat" where
  "position_of a axes = length (takeWhile (\<lambda>x. x \<noteq> a) axes)"

definition np_transpose :: "nat list \<Rightarrow> ndarray \<Rightarrow> ndarray" where
  "np_transpose axes a =
     (let shp = fst a; newshape = map (\<lambda>m. shp ! m) axes
      in (newshape,
          map (\<lambda>k. let J = unravel newshape k;
                       I = map (\<lambda>ax. J ! position_of ax axes) [0..<length shp]
                   in snd a ! ravel shp I)
              [0..<prod_list newshape]))"

definition choi_to_natural :: "nd \<Rightarrow> nat \<Rightarrow> nat \<Rightarrow> error + nd" where
  "choi_to_natural C_AB dA dB =
     ebind (np_reshape (np_array C_AB) [dA, dB, dA, dB]) (\<lambda>t.
     ebind (np_reshape (np_transpose [0, 2, 1, 3] t) [dA * dA, dB * dB]) (\<lambda>m.
       Inr (Mt (transpose_mat \<lparr>nrows = dA * dA, ncols = dB * dB, elems = snd m\<rparr>))))"

subsection \<open>The numerical backend\<close>

text \<open>
  Routines of scipy, numpy and cvxpy, and helpers of the package whose code is in other
  modules, are parameters of the functions that call them. Each may raise. The random
  sampler is given the number of the draw.
\<close>

datatype solver_status = Optimal | Optimal_inaccurate | Infeasible | Unbounded | Not_converged

datatype pyfloat = Finite real | PosInf | NegInf | NaN | PyNone

text \<open>The semidefinite program that \<^verbatim>\<open>diamond_norm\<close> builds is fixed up to the permuted
  Choi matrix and the two dimensions; \<^verbatim>\<open>eps\<close> is always \<open>1e-7\<close>.\<close>

record sdp =
  sdp_J :: nd
  sdp_dA :: nat
  sdp_dB :: nat

record backend =
  eig :: "nd \<Rightarrow> error + complex list \<times> mat"
  sqrtm :: "nd \<Rightarrow> error + nd"
  inv :: "nd \<Rightarrow> error + nd"
  np_allclose :: "nd \<Rightarrow> nd \<Rightarrow> error + bool"
  gram_schmidt :: "complex list list \<Rightarrow> nat \<Rightarrow> error + nd list"
  vec :: "nd \<Rightarrow> error + nd"
  partial_trace :: "nd \<Rightarrow> nat list \<Rightarrow> nat list \<Rightarrow> error + nd"
  syspermute :: "nd \<Rightarrow> nat list \<Rightarrow> nat list \<Rightarrow> error + nd"
  random_density_matrix :: "nat \<Rightarrow> nat \<Rightarrow> error + nd"
  solve :: "sdp \<Rightarrow> bool \<Rightarrow> error + solver_status \<times> pyfloat"

text \<open>The slice \<^verbatim>\<open>U[:, i]\<close>, a one-dimensional array.\<close>

fun column :: "nd \<Rightarrow> nat \<Rightarrow> error + complex list" where
  "column (Sc c) i = Inl IndexError"
| "column (Mt A) i =
     (if i < ncols A then Inr (map (\<lambda>r. ent A r i) [0..<nrows A]) else Inl IndexError)"

text \<open>One pass of the loop of \<^verbatim>\<open>choi_to_kraus\<close>: the operator made from column \<open>i\<close>.\<close>

definition kraus_of_column :: "complex list \<Rightarrow> nd \<Rightarrow> nat \<Rightarrow> nat \<Rightarrow> nat \<Rightarrow> error + nd" where
  "kraus_of_column D U dA dB i =
     ebind (column U i) (\<lambda>Col.
     ebind (nth_err D i) (\<lambda>lam.
       if length Col = dA * dB
       then Inr (Mt (transpose_mat (scale (csqrt lam) \<lparr>nrows = dA, ncols = dB, elems = Col\<rparr>)))
       else Inl ValueError))"

definition choi_to_kraus :: "backend \<Rightarrow> nd \<Rightarrow> nat \<Rightarrow> nat \<Rightarrow> error + nd list" where
  "choi_to_kraus be P dA dB =
     ebind (eig be P) (\<lambda>(D, U0).
       let U_cols = ncols U0 in
       ebind (matmul (Mt U0) (dag (Mt U0))) (\<lambda>UUd.
       ebind (np_allclose be (eye (dA * dB)) UUd) (\<lambda>check1.
       ebind (matmul (dag (Mt U0)) (Mt U0)) (\<lambda>UdU.
       ebind (np_allclose be (eye (dA * dB)) UdU) (\<lambda>check2.
       ebind (if check1 \<and> check2 then Inr (Mt U0)
              else ebind (emap (column (Mt U0)) [0..<U_cols]) (\<lambda>cols.
                   ebind (gram_schmidt be cols (dA * dB)) (\<lambda>C.
                   ebind (emap (\<lambda>i. ebind (nth_err C i)
                                 (\<lambda>c. Inr (tensor (dag (ket U_cols i)) c))) [0..<U_cols])
                     np_sum0))) (\<lambda>U.
       emap (kraus_of_column D U dA dB) [0..<U_cols]))))))"

definition choi_to_stinespring :: "backend \<Rightarrow> nd \<Rightarrow> nat \<Rightarrow> nat \<Rightarrow> error + nd" where
  "choi_to_stinespring be C_AB dA dB =
     ebind (sqrtm be C_AB) (\<lambda>root. ebind (vec be root) (\<lambda>C_AB_purif.
       let gamma = max_ent_vec dA in
       matmul (tensor (dag gamma) (eye (dB * (dA * dB)))) (tensor (eye dA) C_AB_purif)))"

section \<open>The diamond norm\<close>

text \<open>
  \<^verbatim>\<open>diamond_norm\<close> permutes the Choi matrix, states the program, calls
  \<^verbatim>\<open>prob.solve\<close> and returns \<^verbatim>\<open>prob.value\<close>. The status that the solver reports is
  not read.
\<close>

definition diamond_norm :: "backend \<Rightarrow> nd \<Rightarrow> nat \<Rightarrow> nat \<Rightarrow> bool \<Rightarrow> error + pyfloat" where
  "diamond_norm be J dA dB display =
     ebind (syspermute be J [2, 1] [dA, dB]) (\<lambda>J'.
     ebind (solve be \<lparr>sdp_J = J', sdp_dA = dA, sdp_dB = dB\<rparr> display) (\<lambda>(status, val).
       Inr val))"

section \<open>Random channels\<close>

datatype ret = RArr nd | RKraus "nd list" | RStr string

text \<open>The three-factor product \<^verbatim>\<open>X @ Y @ Z\<close>, from the left.\<close>

definition matmul3 :: "nd \<Rightarrow> nd \<Rightarrow> nd \<Rightarrow> error + nd" where
  "matmul3 X Y Z = ebind (matmul X Y) (\<lambda>XY. matmul XY Z)"

text \<open>
  \<^verbatim>\<open>random_CP_map\<close> returns its value together with the lines it printed (the one
  line it can print is followed by an empty line). The number \<open>draw\<close> is that of its
  one call of the sampler. The message for \<open>dA \<noteq> dB\<close> is returned at once, before
  \<open>return_as\<close> is looked at.
\<close>

definition random_CP_map ::
  "backend \<Rightarrow> nat \<Rightarrow> nat \<Rightarrow> nat \<Rightarrow> bool \<Rightarrow> bool \<Rightarrow> string \<Rightarrow> error + ret \<times> string list" where
  "random_CP_map be draw dA dB TP unital return_as =
     ebind (random_density_matrix be draw (dA * dB)) (\<lambda>C0.
     ebind
       (if \<not> TP \<and> \<not> unital then Inr (Inr C0)
        else if TP \<and> \<not> unital then
          ebind (partial_trace be C0 [2] [dA, dB]) (\<lambda>C_A.
          ebind (sqrtm be C_A) (\<lambda>root. ebind (inv be root) (\<lambda>iroot.
            let C_A_inv_sq = tensor iroot (eye dB) in
            ebind (matmul3 C_A_inv_sq C0 C_A_inv_sq) (\<lambda>C. Inr (Inr C)))))
        else if \<not> TP \<and> unital then
          ebind (partial_trace be C0 [1] [dA, dB]) (\<lambda>C_B.
          ebind (sqrtm be C_B) (\<lambda>root. ebind (inv be root) (\<lambda>iroot.
            let C_B_inv_sq = tensor (eye dA) iroot in
            ebind (matmul3 C_B_inv_sq C0 C_B_inv_sq) (\<lambda>C. Inr (Inr C)))))
        else if dA \<noteq> dB
          then Inr (Inl ''Input and output dimensions must match for a TP and unital CP map!'')
          else Inr (Inr C0))
       (\<lambda>r. case r of
          Inl msg \<Rightarrow> Inr (RStr msg, [])
        | Inr C_AB \<Rightarrow>
           if return_as = ''choi'' then Inr (RArr C_AB, [])
           else if return_as = ''kraus'' then
             ebind (choi_to_kraus be C_AB dA dB) (\<lambda>K. Inr (RKraus K, []))
           else if return_as = ''natural'' then
             ebind (choi_to_natural C_AB dA dB) (\<lambda>N. Inr (RArr N, []))
           else if return_as = ''stinespring'' then
             ebind (choi_to_stinespring be C_AB dA dB) (\<lambda>V. Inr (RArr V, []))
           else Inr (RArr C_AB,
                     [''Output format not recognized -- returning Choi representation...''])))"

definition random_quantum_channel ::
  "backend \<Rightarrow> nat \<Rightarrow> nat \<Rightarrow> nat \<Rightarrow> bool \<Rightarrow> string \<Rightarrow> error + ret \<times> string list" where
  "random_quantum_channel be draw dA dB unital return_as =
     random_CP_map be draw dA dB True unital return_as"

text \<open>
  \<^verbatim>\<open>random_POVM\<close>. In the branch \<^verbatim>\<open>via_choi=False\<close> the loop computes each \<open>Mi\<close> and
  drops it: nothing is appended to \<open>M\<close>.
\<close>

definition random_POVM :: "backend \<Rightarrow> nat \<Rightarrow> nat \<Rightarrow> bool \<Rightarrow> error + nd list" where
  "random_POVM be d num_elem via_choi =
     (let M = [] in
      if via_choi then
        ebind (random_quantum_channel be 0 d num_elem False ''choi'') (\<lambda>(r, out).
          case r of
            RArr C \<Rightarrow>
              ebind (emap (\<lambda>i. matmul3 (tensor (eye d) (dag (ket num_elem i))) C
                                     (tensor (eye d) (ket num_elem i))) [0..<num_elem])
                (\<lambda>Ms. Inr (M @ Ms))
          | _ \<Rightarrow> Inl TypeError)
      else
        ebind (emap (\<lambda>i. random_density_matrix be i d) [0..<num_elem]) (\<lambda>S.
        ebind (np_sum0 S) (\<lambda>R.
        ebind (sqrtm be R) (\<lambda>root. ebind (inv be root) (\<lambda>R_inv_sq.
        ebind (emap (\<lambda>i. ebind (nth_err S i) (\<lambda>Si. matmul3 R_inv_sq Si R_inv_sq))
                 [0..<num_elem]) (\<lambda>Mis.
          Inr M))))))"

subsection \<open>The ordered product of a choice of operators\<close>

text \<open>
  The product \<open>Kn @ ... @ K1\<close> of the operators \<open>[K1, ..., Kn]\<close>, listed in the order
  in which the maps are applied, read from the left as Python reads a chain of \<^verbatim>\<open>@\<close>.
  This is the product that the description of \<^verbatim>\<open>compose_channels\<close> speaks of; the
  function itself multiplies onto an identity, from the other end.
\<close>

fun chain_product :: "nat \<Rightarrow> mat list \<Rightarrow> mat" where
  "chain_product d [] = eye_mat d"
| "chain_product d [k] = k"
| "chain_product d (k # k' # ks) = mm (chain_product d (k' # ks)) k"

subsection \<open>A backend for examples\<close>

text \<open>
  A backend to evaluate the functions on: its sampler returns the maximally mixed state,
  its square root and inverse know the two-by-two identity only, and its solver reports
  an infeasible program, with the value that cvxpy gives a maximization then.
\<close>

definition sample_backend :: backend where
  "sample_backend = \<lparr>
     eig = (\<lambda>P. Inl LinAlgError),
     sqrtm = (\<lambda>X. if X = eye 2 then Inr X else Inl LinAlgError),
     inv = (\<lambda>X. if X = eye 2 then Inr X else Inl LinAlgError),
     np_allclose = (\<lambda>X Y. Inr (X = Y)),
     gram_schmidt = (\<lambda>vs n. Inl LinAlgError),
     vec = (\<lambda>X. Inl ValueError),
     partial_trace = (\<lambda>X sys dims. Inl ValueError),
     syspermute = (\<lambda>X perm dims. Inr X),
     random_density_matrix = (\<lambda>draw d. Inr (Mt (scale (1 / of_nat d) (eye_mat d)))),
     solve = (\<lambda>p verbose. Inr (Infeasible, NegInf))\<rparr>"

section \<open>Basic facts\<close>

lemma ebind_Inr [simp]: "ebind (Inr v) f = f v"
  by (simp add: ebind_def)

lemma ebind_Inl [simp]: "ebind (Inl e) f = Inl e"
  by (simp add: ebind_def)

lemma sum_list_upt: "sum_list (map f [0..<n]) = (\<Sum>k<n. f k)"
  by (simp add: interv_sum_list_conv_sum_set_nat atLeast0LessThan)

lemma nrows_mk [simp]: "nrows (mk r c f) = r"
  by (simp add: mk_def)

lemma ncols_mk [simp]: "ncols (mk r c f) = c"
  by (simp add: mk_def)

lemma length_elems_mk [simp]: "length (elems (mk r c f)) = r * c"
  by (simp add: mk_def)

lemma wf_mk [simp]: "wf_mat (mk r c f)"
  by (simp add: wf_mat_def)

lemma flat_index_less: "i < r \<Longrightarrow> j < c \<Longrightarrow> i * c + j < r * (c::nat)"
proof -
  assume a: "i < r" "j < c"
  then have "i * c + j < i * c + c" by simp
  also have "\<dots> = Suc i * c" by simp
  also from a have "\<dots> \<le> r * c" by (intro mult_le_mono1) simp
  finally show ?thesis .
qed

lemma ent_mk [simp]: "i < r \<Longrightarrow> j < c \<Longrightarrow> ent (mk r c f) i j = f i j"
  by (simp add: ent_def mk_def flat_index_less)

lemma mk_cong: "(\<And>i j. i < r \<Longrightarrow> j < c \<Longrightarrow> f i j = g i j) \<Longrightarrow> mk r c f = mk r c g"
proof -
  assume h: "\<And>i j. i < r \<Longrightarrow> j < c \<Longrightarrow> f i j = g i j"
  have "f (k div c) (k mod c) = g (k div c) (k mod c)" if "k < r * c" for k
  proof -
    from that have "0 < c" by (cases c) auto
    moreover from that have "k div c < r" by (simp add: less_mult_imp_div_less)
    ultimately show ?thesis by (intro h) auto
  qed
  then show ?thesis by (simp add: mk_def)
qed

lemma mk_ent: "wf_mat A \<Longrightarrow> mk (nrows A) (ncols A) (ent A) = A"
proof -
  assume w: "wf_mat A"
  have "map (\<lambda>k. ent A (k div ncols A) (k mod ncols A)) [0..<nrows A * ncols A] = elems A"
    using w by (intro nth_equalityI) (auto simp: wf_mat_def ent_def)
  then show ?thesis by (simp add: mk_def)
qed

lemma mat_eqI:
  assumes "wf_mat A" "wf_mat B" "nrows A = nrows B" "ncols A = ncols B"
    and "\<And>i j. i < nrows A \<Longrightarrow> j < ncols A \<Longrightarrow> ent A i j = ent B i j"
  shows "A = B"
proof -
  have "A = mk (nrows A) (ncols A) (ent A)" using assms(1) by (simp add: mk_ent)
  also have "\<dots> = mk (nrows A) (ncols A) (ent B)" by (rule mk_cong) (rule assms(5))
  also have "\<dots> = B" using assms by (simp add: mk_ent)
  finally show ?thesis .
qed

lemma emap_Inr: "(\<And>x. x \<in> set xs \<Longrightarrow> f x = Inr (g x)) \<Longrightarrow> emap f xs = Inr (map g xs)"
  by (induction xs) auto

lemma emap_map: "emap f (map g xs) = emap (\<lambda>x. f (g x)) xs"
  by (induction xs) auto

lemma nth_err_less [simp]: "i < length xs \<Longrightarrow> nth_err xs i = Inr (xs ! i)"
  by (simp add: nth_err_def)

lemma shape_foldl_add:
  "shape_of x = [r, c] \<Longrightarrow> (\<And>y. y \<in> set ys \<Longrightarrow> shape_of y = [r, c]) \<Longrightarrow>
   shape_of (foldl nd_add x ys) = [r, c]"
proof (induction ys arbitrary: x)
  case Nil then show ?case by simp
next
  case (Cons y ys)
  from Cons.prems obtain A where x: "x = Mt A" by (cases x) auto
  from Cons.prems(2)[of y] obtain B where y: "y = Mt B" by (cases y) auto
  have "shape_of (nd_add x y) = [r, c]" using Cons.prems(1) x y by (simp add: add_mat_def)
  then show ?case using Cons by simp
qed

lemma np_sum0_shape:
  assumes "xs \<noteq> []" and "\<And>x. x \<in> set xs \<Longrightarrow> shape_of x = [r, c]"
  shows "\<exists>A. np_sum0 xs = Inr (Mt A) \<and> nrows A = r \<and> ncols A = c"
proof -
  from assms(1) obtain x rest where xs: "xs = x # rest" by (cases xs) auto
  have all: "list_all (\<lambda>y. shape_of y = shape_of x) rest"
    using assms(2) xs by (simp add: list_all_iff)
  have "shape_of (foldl nd_add x rest) = [r, c]"
    using assms(2) xs by (intro shape_foldl_add) auto
  then obtain A where "foldl nd_add x rest = Mt A" "nrows A = r" "ncols A = c"
    by (cases "foldl nd_add x rest") auto
  then show ?thesis using all xs by (simp add: np_sum0_def)
qed

section \<open>Applying a map with no Kraus operators\<close>

text \<open>
  C7, as stated: with the empty Kraus list, \<^verbatim>\<open>apply_channel\<close> reports an invalid-map
  error. It does not: on the one-by-one matrix \<open>[[1]]\<close> no error is returned.
\<close>

theorem apply_channel_empty_no_error:
  "\<not> (\<exists>e. apply_channel [] (Mt \<lparr>nrows = 1, ncols = 1, elems = [1]\<rparr>) None None False = Inl e)"
  by (simp add: apply_channel_def np_sum0_def)

text \<open>
  C7, amended: with the empty Kraus list and \<open>sys\<close> unset, \<^verbatim>\<open>apply_channel\<close> raises
  nothing and returns the scalar \<open>0\<close>, the value of \<^verbatim>\<open>np.sum\<close> on an empty list,
  for every \<open>rho\<close>, with or without \<open>adjoint\<close>.
\<close>

theorem apply_channel_empty_returns_zero:
  "apply_channel [] rho None dm adjoint = Inr (Sc 0)"
  by (simp add: apply_channel_def np_sum0_def)

section \<open>The solver status in the diamond norm\<close>

text \<open>
  C6, as stated: when the solver reports failure, \<^verbatim>\<open>diamond_norm\<close> surfaces an error
  instead of a number. It does not: with a backend that reports an infeasible program,
  the value of the failed solve is returned as the result.
\<close>

theorem diamond_norm_infeasible_returns:
  "solve sample_backend \<lparr>sdp_J = eye 1, sdp_dA = 1, sdp_dB = 1\<rparr> False = Inr (Infeasible, NegInf)
   \<and> diamond_norm sample_backend (eye 1) 1 1 False = Inr NegInf"
  by (simp add: diamond_norm_def sample_backend_def)

text \<open>
  C6, amended: \<^verbatim>\<open>diamond_norm\<close> returns the value that the backend reports for the
  program, whatever status comes with it; the status is not inspected.
\<close>

theorem diamond_norm_value:
  assumes "syspermute be J [2, 1] [dA, dB] = Inr J'"
    and "solve be \<lparr>sdp_J = J', sdp_dA = dA, sdp_dB = dB\<rparr> display = Inr (status, val)"
  shows "diamond_norm be J dA dB display = Inr val"
  using assms by (simp add: diamond_norm_def)

theorem diamond_norm_value_witness:
  "diamond_norm sample_backend (eye 1) 1 1 False = Inr NegInf"
  by (rule diamond_norm_value [where J' = "eye 1" and status = Infeasible])
     (simp_all add: sample_backend_def)

section \<open>A trace-preserving and unital map between different dimensions\<close>

text \<open>
  C8, as stated: \<^verbatim>\<open>random_CP_map(dA, dB, TP=True, unital=True)\<close> with different
  dimensions raises an error. It does not: for dimensions 1 and 2 no error is returned.
\<close>

theorem random_CP_map_mismatch_returns:
  "\<not> (\<exists>e. random_CP_map sample_backend 0 1 2 True True ''choi'' = Inl e)"
  by (simp add: random_CP_map_def sample_backend_def)

text \<open>
  C8, amended: for \<open>dA \<noteq> dB\<close>, once the sampler has returned,
  \<^verbatim>\<open>random_CP_map(dA, dB, TP=True, unital=True)\<close> returns, as an ordinary value and for
  every \<open>return_as\<close>, the string that says that the dimensions must match; nothing is
  raised and nothing is printed.
\<close>

theorem random_CP_map_mismatch_message:
  assumes "dA \<noteq> dB" and "random_density_matrix be draw (dA * dB) = Inr C"
  shows "random_CP_map be draw dA dB True True return_as =
    Inr (RStr ''Input and output dimensions must match for a TP and unital CP map!'', [])"
  using assms by (simp add: random_CP_map_def)

theorem random_CP_map_mismatch_message_witness:
  "random_CP_map sample_backend 0 1 2 True True ''kraus'' =
    Inr (RStr ''Input and output dimensions must match for a TP and unital CP map!'', [])"
  by (rule random_CP_map_mismatch_message) (simp_all add: sample_backend_def)

section \<open>The pretty-good-measurement branch of the random POVM\<close>

lemma matmul3_shape:
  "nrows X = a \<Longrightarrow> ncols X = b \<Longrightarrow> nrows Y = b \<Longrightarrow> ncols Y = c \<Longrightarrow> nrows Z = c \<Longrightarrow>
   matmul3 (Mt X) (Mt Y) (Mt Z) = Inr (Mt (mm (mm X Y) Z))"
  by (simp add: matmul3_def mm_def)

text \<open>
  C10: \<^verbatim>\<open>random_POVM(d, num_elem, via_choi=False)\<close> returns the empty list. When the
  sampler returns \<open>d\<close> by \<open>d\<close> matrices and the square root and the inverse of
  their sum are computed, the loop runs without raising and the list returned is empty,
  for every \<open>d\<close> and \<open>num_elem\<close>.
\<close>

theorem random_POVM_pgm_empty:
  assumes draws: "\<And>i. i < num_elem \<Longrightarrow>
      \<exists>A. random_density_matrix be i d = Inr (Mt A) \<and> nrows A = d \<and> ncols A = d"
    and roots: "\<And>S R. emap (\<lambda>i. random_density_matrix be i d) [0..<num_elem] = Inr S \<Longrightarrow>
      np_sum0 S = Inr R \<Longrightarrow>
      \<exists>Q P. sqrtm be R = Inr Q \<and> inv be Q = Inr (Mt P) \<and> nrows P = d \<and> ncols P = d"
  shows "random_POVM be d num_elem False = Inr []"
proof -
  define g where "g i = (SOME A. random_density_matrix be i d = Inr (Mt A) \<and> nrows A = d \<and> ncols A = d)" for i
  have g: "random_density_matrix be i d = Inr (Mt (g i)) \<and> nrows (g i) = d \<and> ncols (g i) = d"
    if "i < num_elem" for i
    unfolding g_def using draws[OF that] by (rule someI_ex)
  define S where "S = map (\<lambda>i. Mt (g i)) [0..<num_elem]"
  have S: "emap (\<lambda>i. random_density_matrix be i d) [0..<num_elem] = Inr S"
    unfolding S_def by (rule emap_Inr) (simp add: g)
  have "\<exists>R. np_sum0 S = Inr R"
  proof (cases "num_elem = 0")
    case True then show ?thesis by (simp add: S_def np_sum0_def)
  next
    case False
    then have "S \<noteq> []" by (simp add: S_def)
    moreover have "shape_of x = [d, d]" if "x \<in> set S" for x
      using that g by (auto simp: S_def)
    ultimately show ?thesis using np_sum0_shape[of S d d] by blast
  qed
  then obtain R where R: "np_sum0 S = Inr R" ..
  from roots[OF S R] obtain Q P where
    Q: "sqrtm be R = Inr Q" and P: "inv be Q = Inr (Mt P)" "nrows P = d" "ncols P = d"
    by blast
  have terms: "emap (\<lambda>i. ebind (nth_err S i) (\<lambda>Si. matmul3 (Mt P) Si (Mt P))) [0..<num_elem]
     = Inr (map (\<lambda>i. Mt (mm (mm P (g i)) P)) [0..<num_elem])"
    by (rule emap_Inr) (simp add: S_def g P matmul3_shape)
  show ?thesis
    by (simp add: random_POVM_def S R Q P terms)
qed

theorem random_POVM_pgm_empty_witness:
  "random_POVM sample_backend 2 2 False = Inr []"
proof (rule random_POVM_pgm_empty)
  fix i :: nat assume "i < 2"
  show "\<exists>A. random_density_matrix sample_backend i 2 = Inr (Mt A) \<and> nrows A = 2 \<and> ncols A = 2"
    by (simp add: sample_backend_def scale_def eye_mat_def)
next
  fix S R
  assume S: "emap (\<lambda>i. random_density_matrix sample_backend i 2) [0..<2] = Inr S"
    and R: "np_sum0 S = Inr R"
  have "[0..<2] = [0, Suc 0]" by (simp add: upt_rec)
  with S have "S = [Mt (scale (1 / 2) (eye_mat 2)), Mt (scale (1 / 2) (eye_mat 2))]"
    by (auto simp: sample_backend_def)
  with R have "R = Mt (add_mat (scale (1 / 2) (eye_mat 2)) (scale (1 / 2) (eye_mat 2)))"
    by (simp add: np_sum0_def scale_def)
  also have "add_mat (scale (1 / 2) (eye_mat 2)) (scale (1 / 2) (eye_mat 2)) = eye_mat 2"
    by code_simp
  finally have "R = eye 2" by (simp add: eye_def)
  then show "\<exists>Q P. sqrtm sample_backend R = Inr Q \<and> inv sample_backend Q = Inr (Mt P)
      \<and> nrows P = 2 \<and> ncols P = 2"
    by (simp add: sample_backend_def eye_def eye_mat_def)
qed

section \<open>Index tuples\<close>

lemma length_itertools_product:
  "length (itertools_product xss) = prod_list (map length xss)"
proof (induction xss)
  case Nil then show ?case by simp
next
  case (Cons xs xss)
  have "length (concat (map (\<lambda>x. map (\<lambda>t. x # t) (itertools_product xss)) xs))
      = length xs * length (itertools_product xss)"
    by (induction xs) simp_all
  then show ?case using Cons by simp
qed

lemma in_itertools_product:
  "comb \<in> set (itertools_product xss) \<Longrightarrow>
   length comb = length xss \<and> (\<forall>i<length xss. comb ! i \<in> set (xss ! i))"
proof (induction xss arbitrary: comb)
  case Nil then show ?case by simp
next
  case (Cons xs xss)
  from Cons.prems obtain x t where c: "comb = x # t" "x \<in> set xs" "t \<in> set (itertools_product xss)"
    by auto
  from Cons.IH[OF c(3)] have t: "length t = length xss" "\<forall>i<length xss. t ! i \<in> set (xss ! i)"
    by auto
  show ?case
  proof (intro conjI allI impI)
    show "length comb = length (xs # xss)" using c t by simp
    fix i assume "i < length (xs # xss)"
    then show "comb ! i \<in> set ((xs # xss) ! i)" using c t by (cases i) auto
  qed
qed

section \<open>Tensor powers of a map\<close>

lemma uses_loop_fold:
  assumes "\<And>i. i \<in> set is \<Longrightarrow> i < length comb \<and> comb ! i < length K"
  shows "uses_loop K comb is tmp = Inr (foldl (\<lambda>t i. tensor t (K ! (comb ! i))) tmp is)"
  using assms by (induction "is" arbitrary: tmp) simp_all

lemma has_shape_kron:
  "nrows A = r \<Longrightarrow> ncols A = c \<Longrightarrow> nrows B = r' \<Longrightarrow> ncols B = c' \<Longrightarrow>
   has_shape (r * r') (c * c') (kron A B)"
  by (simp add: has_shape_def kron_def)

lemma tensor_chain_shape:
  assumes "has_shape r c A"
    and "\<And>i. i \<in> set is \<Longrightarrow> \<exists>B. f i = Mt B \<and> nrows B = dB \<and> ncols B = dA"
  shows "\<exists>R. foldl (\<lambda>t i. tensor t (f i)) (Mt A) is = Mt R
     \<and> has_shape (r * dB ^ length is) (c * dA ^ length is) R"
  using assms
proof (induction "is" arbitrary: A r c)
  case Nil then show ?case by simp
next
  case (Cons i "is")
  from Cons.prems(2)[of i] obtain B where B: "f i = Mt B" "nrows B = dB" "ncols B = dA" by auto
  have "has_shape (r * dB) (c * dA) (kron A B)"
    using Cons.prems(1) B by (intro has_shape_kron) (auto simp: has_shape_def)
  from Cons.IH[OF this] Cons.prems(2) obtain R where
    "foldl (\<lambda>t i. tensor t (f i)) (Mt (kron A B)) is = Mt R"
    "has_shape (r * dB * dB ^ length is) (c * dA * dA ^ length is) R"
    by auto
  then show ?case using B by (simp add: mult.assoc)
qed

lemma tensor_chain_shape_one:
  assumes "ps \<noteq> []"
    and "\<And>i. i \<in> set ps \<Longrightarrow> \<exists>B. f i = Mt B \<and> nrows B = dB \<and> ncols B = dA"
  shows "\<exists>R. foldl (\<lambda>t i. tensor t (f i)) (Sc 1) ps = Mt R
     \<and> has_shape (dB ^ length ps) (dA ^ length ps) R"
proof -
  from assms(1) obtain i rest where ps: "ps = i # rest" by (cases ps) auto
  from assms(2)[of i] ps obtain B where B: "f i = Mt B" "nrows B = dB" "ncols B = dA" by auto
  have "has_shape dB dA (scale 1 B)" using B by (simp add: has_shape_def scale_def)
  from tensor_chain_shape[OF this, of rest f dB dA] assms(2) ps obtain R where
    "foldl (\<lambda>t i. tensor t (f i)) (Mt (scale 1 B)) rest = Mt R"
    "has_shape (dB * dB ^ length rest) (dA * dA ^ length rest) R"
    by auto
  then show ?thesis using ps B by simp
qed

text \<open>
  C9: for a Kraus list whose operators all have \<open>dB\<close> rows and \<open>dA\<close> columns and for
  \<open>n \<ge> 1\<close>, \<^verbatim>\<open>n_channel_uses(K, n)\<close> returns a list of exactly \<open>|K|^n\<close> operators,
  each a matrix of shape \<open>dB^n\<close> by \<open>dA^n\<close>.
\<close>

theorem n_channel_uses_count_shape:
  assumes n: "1 \<le> n"
    and K: "\<forall>k \<in> set K. nrows k = dB \<and> ncols k = dA"
  shows "\<exists>L. n_channel_uses (map Mt K) n = Inr L \<and> length L = length K ^ n
     \<and> (\<forall>x \<in> set L. \<exists>A. x = Mt A \<and> has_shape (dB ^ n) (dA ^ n) A)"
proof -
  let ?K = "map Mt K"
  let ?combs = "itertools_product (replicate n [0..<length ?K])"
  let ?g = "\<lambda>comb. foldl (\<lambda>t i. tensor t (?K ! (comb ! i))) (Sc 1) [0..<n]"
  have comb: "length comb = n \<and> (\<forall>i<n. comb ! i < length K)" if "comb \<in> set ?combs" for comb
    using in_itertools_product[OF that] by auto
  have run: "emap (\<lambda>comb. uses_loop ?K comb [0..<n] (Sc 1)) ?combs = Inr (map ?g ?combs)"
  proof (rule emap_Inr)
    fix comb assume "comb \<in> set ?combs"
    from comb[OF this] show "uses_loop ?K comb [0..<n] (Sc 1) = Inr (?g comb)"
      by (intro uses_loop_fold) auto
  qed
  have len: "length ?combs = length K ^ n"
    by (simp add: length_itertools_product)
  have shp: "\<exists>A. ?g comb = Mt A \<and> has_shape (dB ^ n) (dA ^ n) A" if "comb \<in> set ?combs" for comb
  proof -
    have "\<exists>R. ?g comb = Mt R \<and> has_shape (dB ^ length [0..<n]) (dA ^ length [0..<n]) R"
    proof (rule tensor_chain_shape_one)
      show "[0..<n] \<noteq> []" using n by simp
      fix i assume "i \<in> set [0..<n]"
      then have "comb ! i < length K" using comb[OF that] by simp
      then show "\<exists>B. ?K ! (comb ! i) = Mt B \<and> nrows B = dB \<and> ncols B = dA"
        using K by simp
    qed
    then show ?thesis by simp
  qed
  show ?thesis
    using run len shp by (auto simp: n_channel_uses_def Let_def)
qed

theorem n_channel_uses_count_shape_witness:
  "\<exists>L. n_channel_uses [Mt (eye_mat 2), Mt (mk 2 2 (\<lambda>i j. if i = j then 0 else 1))] 3 = Inr L
     \<and> length L = 8 \<and> (\<forall>x \<in> set L. \<exists>A. x = Mt A \<and> has_shape 8 8 A)"
  using n_channel_uses_count_shape [of 3 "[eye_mat 2, mk 2 2 (\<lambda>i j. if i = j then 0 else 1)]" 2 2]
  by (simp add: eye_mat_def numeral_2_eq_2 [symmetric])

section \<open>Matrix products\<close>

lemma ent_mm:
  "i < nrows A \<Longrightarrow> j < ncols B \<Longrightarrow> ent (mm A B) i j = (\<Sum>k<ncols A. ent A i k * ent B k j)"
  by (simp add: mm_def sum_list_upt)

lemma nrows_mm [simp]: "nrows (mm A B) = nrows A"
  by (simp add: mm_def)

lemma ncols_mm [simp]: "ncols (mm A B) = ncols B"
  by (simp add: mm_def)

lemma wf_mm [simp]: "wf_mat (mm A B)"
  by (simp add: mm_def)

lemma has_shape_wf: "has_shape r c A \<longleftrightarrow> wf_mat A \<and> nrows A = r \<and> ncols A = c"
  by (auto simp: has_shape_def wf_mat_def)

lemma ent_eye: "i < d \<Longrightarrow> j < d \<Longrightarrow> ent (eye_mat d) i j = (if i = j then 1 else 0)"
  by (simp add: eye_mat_def)

lemma mm_eye_right:
  assumes "wf_mat A" and "ncols A = d"
  shows "mm A (eye_mat d) = A"
proof (rule mat_eqI)
  show "wf_mat (mm A (eye_mat d))" by simp
  show "wf_mat A" by fact
  show "nrows (mm A (eye_mat d)) = nrows A" by simp
  show "ncols (mm A (eye_mat d)) = ncols A" using assms by (simp add: eye_mat_def)
  fix i j assume "i < nrows (mm A (eye_mat d))" and "j < ncols (mm A (eye_mat d))"
  then have i: "i < nrows A" and j: "j < d" by (simp_all add: eye_mat_def)
  have "ent (mm A (eye_mat d)) i j = (\<Sum>k<d. ent A i k * ent (eye_mat d) k j)"
    using i j assms by (simp add: ent_mm eye_mat_def)
  also have "\<dots> = (\<Sum>k<d. if k = j then ent A i j else 0)"
    using j by (intro sum.cong) (auto simp: ent_eye)
  also have "\<dots> = ent A i j" using j by simp
  finally show "ent (mm A (eye_mat d)) i j = ent A i j" .
qed

lemma mm_assoc:
  assumes "ncols A = nrows B" and "ncols B = nrows C"
  shows "mm (mm A B) C = mm A (mm B C)"
proof (rule mat_eqI)
  fix i j assume "i < nrows (mm (mm A B) C)" and "j < ncols (mm (mm A B) C)"
  then have i: "i < nrows A" and j: "j < ncols C" by simp_all
  have "ent (mm (mm A B) C) i j = (\<Sum>l<ncols B. ent (mm A B) i l * ent C l j)"
    using i j by (simp add: ent_mm)
  also have "\<dots> = (\<Sum>l<ncols B. (\<Sum>k<ncols A. ent A i k * ent B k l) * ent C l j)"
    using i by (intro sum.cong) (auto simp: ent_mm)
  also have "\<dots> = (\<Sum>l<ncols B. \<Sum>k<ncols A. ent A i k * (ent B k l * ent C l j))"
    by (simp add: sum_distrib_right mult.assoc)
  also have "\<dots> = (\<Sum>k<ncols A. \<Sum>l<ncols B. ent A i k * (ent B k l * ent C l j))"
    by (rule sum.swap)
  also have "\<dots> = (\<Sum>k<ncols A. ent A i k * ent (mm B C) k j)"
    using j assms by (intro sum.cong) (auto simp: ent_mm sum_distrib_left)
  also have "\<dots> = ent (mm A (mm B C)) i j"
    using i j by (simp add: ent_mm)
  finally show "ent (mm (mm A B) C) i j = ent (mm A (mm B C)) i j" .
qed simp_all

section \<open>Serial composition\<close>

lemma chain_product_shape:
  assumes "ks \<noteq> []" and "\<And>k. k \<in> set ks \<Longrightarrow> has_shape d d k"
  shows "has_shape d d (chain_product d ks)"
  using assms
proof (induction d ks rule: chain_product.induct)
  case (3 d k k' ks)
  have "has_shape d d k" using "3.prems"(2) by simp
  moreover have "has_shape d d (chain_product d (k' # ks))"
    using "3.prems"(2) by (intro "3.IH") simp_all
  ultimately show ?case by (simp add: has_shape_def mm_def)
qed simp_all

lemma foldl_mm_chain:
  assumes "ks \<noteq> []" and "\<And>k. k \<in> set ks \<Longrightarrow> has_shape d d k" and "nrows T = d"
  shows "foldl (\<lambda>t k. mm k t) T ks = mm (chain_product d ks) T"
  using assms
proof (induction d ks arbitrary: T rule: chain_product.induct)
  case (1 d) then show ?case by simp
next
  case (2 d k) then show ?case by simp
next
  case (3 d k k' ks)
  have kshape: "has_shape d d k" using "3.prems"(2) by simp
  have rest: "\<And>x. x \<in> set (k' # ks) \<Longrightarrow> has_shape d d x" using "3.prems"(2) by simp
  have sh: "has_shape d d (chain_product d (k' # ks))"
    by (rule chain_product_shape) (simp, rule rest)
  have "foldl (\<lambda>t k. mm k t) T (k # k' # ks) = foldl (\<lambda>t k. mm k t) (mm k T) (k' # ks)"
    by simp
  also have "\<dots> = mm (chain_product d (k' # ks)) (mm k T)"
  proof (rule "3.IH")
    show "k' # ks \<noteq> []" by simp
    show "\<And>x. x \<in> set (k' # ks) \<Longrightarrow> has_shape d d x" by (rule rest)
    show "nrows (mm k T) = d" using kshape by (simp add: has_shape_def)
  qed
  also have "\<dots> = mm (mm (chain_product d (k' # ks)) k) T"
  proof (rule mm_assoc[symmetric])
    show "ncols (chain_product d (k' # ks)) = nrows k"
      using sh kshape by (simp add: has_shape_def)
    show "ncols k = nrows T" using kshape "3.prems"(3) by (simp add: has_shape_def)
  qed
  finally show ?case by simp
qed

lemma compose_loop_fold:
  assumes "\<And>i. i \<in> set ps \<Longrightarrow> i < length C \<and> i < length comb \<and> comb ! i < length (C ! i)
             \<and> has_shape d d (C ! i ! (comb ! i))"
    and "nrows T = d"
  shows "compose_loop (map (map Mt) C) comb ps (Mt T)
     = Inr (Mt (foldl (\<lambda>t k. mm k t) T (map (\<lambda>i. C ! i ! (comb ! i)) ps)))"
  using assms
proof (induction ps arbitrary: T)
  case Nil then show ?case by simp
next
  case (Cons i ps)
  from Cons.prems(1)[of i] have i: "i < length C" "i < length comb" "comb ! i < length (C ! i)"
    "has_shape d d (C ! i ! (comb ! i))" by auto
  have "compose_loop (map (map Mt) C) comb (i # ps) (Mt T)
      = compose_loop (map (map Mt) C) comb ps (Mt (mm (C ! i ! (comb ! i)) T))"
    using i Cons.prems(2) by (simp add: has_shape_def)
  also have "\<dots> = Inr (Mt (foldl (\<lambda>t k. mm k t) (mm (C ! i ! (comb ! i)) T)
        (map (\<lambda>i. C ! i ! (comb ! i)) ps)))"
    using Cons.prems i by (intro Cons.IH) (auto simp: has_shape_def)
  finally show ?case by simp
qed

text \<open>
  C5, as stated: for every nonempty list of Kraus lists of square operators of one
  dimension, \<^verbatim>\<open>compose_channels\<close> returns one operator per element of the Cartesian
  product of the index ranges. It does not when the first Kraus list is empty: the
  dimension is read from \<^verbatim>\<open>C[0][0]\<close>, and on the list \<open>[[]]\<close> the function raises
  IndexError instead of returning the empty list of operators.
\<close>

theorem compose_channels_empty_first:
  "\<not> (\<exists>L. compose_channels [[]] = Inr L \<and> length L = prod_list (map length [[] :: nd list]))"
  by (simp add: compose_channels_def nth_err_def)

text \<open>
  C5, amended: for every nonempty list \<open>C\<close> of Kraus lists whose first list is not
  empty and whose operators are all \<open>d\<close> by \<open>d\<close>, \<^verbatim>\<open>compose_channels\<close> returns exactly
  one operator per element of the Cartesian product of the index ranges, in the order of
  \<^verbatim>\<open>itertools.product\<close>, so the product of the lengths in total, and the operator for
  the choice \<open>(i_1, ..., i_n)\<close> is the product \<open>Kn[i_n] @ ... @ K1[i_1]\<close>.
\<close>

theorem compose_channels_products:
  assumes C: "C \<noteq> []" and C0: "hd C \<noteq> []"
    and sq: "\<forall>c \<in> set C. \<forall>k \<in> set c. has_shape d d k"
  shows "compose_channels (map (map Mt) C)
       = Inr (map (\<lambda>comb. Mt (chain_product d (map (\<lambda>m. C ! m ! (comb ! m)) [0..<length C])))
                (itertools_product (map (\<lambda>c. [0..<length c]) C)))
     \<and> length (itertools_product (map (\<lambda>c. [0..<length c]) C)) = prod_list (map length C)"
proof -
  let ?C = "map (map Mt) C"
  let ?combs = "itertools_product (map (\<lambda>c. [0..<length c]) C)"
  let ?ops = "\<lambda>comb. map (\<lambda>m. C ! m ! (comb ! m)) [0..<length C]"
  from C C0 obtain k00 c0 Cs where C_eq: "C = (k00 # c0) # Cs"
    by (cases C; cases "hd C") auto
  then have "has_shape d d k00" using sq by simp
  then have d: "nrows k00 = d" by (simp add: has_shape_def)
  have comb: "length comb = length C \<and> (\<forall>i<length C. comb ! i < length (C ! i))"
    if "comb \<in> set ?combs" for comb
    using in_itertools_product[OF that] by auto
  have op: "has_shape d d (C ! i ! (comb ! i))" if "comb \<in> set ?combs" "i < length C" for comb i
  proof -
    from comb[OF that(1)] that(2) have "comb ! i < length (C ! i)" by simp
    then have "C ! i ! (comb ! i) \<in> set (C ! i)" by simp
    moreover have "C ! i \<in> set C" using that(2) by simp
    ultimately show ?thesis using sq by blast
  qed
  have loop: "compose_loop ?C comb [0..<length comb] (eye d) = Inr (Mt (chain_product d (?ops comb)))"
    if "comb \<in> set ?combs" for comb
  proof -
    have len: "length comb = length C" using comb[OF that] by simp
    have ne: "?ops comb \<noteq> []" using C by simp
    have shp: "\<And>k. k \<in> set (?ops comb) \<Longrightarrow> has_shape d d k" using op[OF that] by auto
    have "compose_loop ?C comb [0..<length C] (Mt (eye_mat d))
        = Inr (Mt (foldl (\<lambda>t k. mm k t) (eye_mat d) (?ops comb)))"
      using comb[OF that] op[OF that] by (intro compose_loop_fold) (auto simp: eye_mat_def)
    also have "foldl (\<lambda>t k. mm k t) (eye_mat d) (?ops comb) = mm (chain_product d (?ops comb)) (eye_mat d)"
      using ne shp by (intro foldl_mm_chain) (auto simp: eye_mat_def)
    also have "\<dots> = chain_product d (?ops comb)"
      using chain_product_shape[OF ne shp] by (intro mm_eye_right) (auto simp: has_shape_wf)
    finally show ?thesis by (simp add: len eye_def)
  qed
  have "emap (\<lambda>comb. compose_loop ?C comb [0..<length comb] (eye d)) ?combs
      = Inr (map (\<lambda>comb. Mt (chain_product d (?ops comb))) ?combs)"
    by (rule emap_Inr) (rule loop)
  moreover have "map (\<lambda>len. [0..<len]) (map length ?C) = map (\<lambda>c. [0..<length c]) C"
    by (simp add: comp_def)
  moreover have "nth_err ?C 0 = Inr (map Mt (k00 # c0))"
    by (simp add: C_eq nth_err_def)
  moreover have "nth_err (map Mt (k00 # c0)) 0 = Inr (Mt k00)"
    by (simp add: nth_err_def)
  moreover have "nth_err (shape_of (Mt k00)) 0 = Inr d"
    using d by (simp add: nth_err_def)
  ultimately have "compose_channels ?C = Inr (map (\<lambda>comb. Mt (chain_product d (?ops comb))) ?combs)"
    unfolding compose_channels_def Let_def by (simp only: ebind_Inr)
  moreover have "length ?combs = prod_list (map length C)"
    by (simp add: length_itertools_product comp_def)
  ultimately show ?thesis by simp
qed

theorem compose_channels_products_witness:
  "compose_channels (map (map Mt)
       [[eye_mat 2, mk 2 2 (\<lambda>i j. if i = j then 0 else 1)], [mk 2 2 (\<lambda>i j. if i = j then 0 else 1)]])
     = Inr (map (\<lambda>comb. Mt (chain_product 2 (map (\<lambda>m.
           [[eye_mat 2, mk 2 2 (\<lambda>i j. if i = j then 0 else 1)],
            [mk 2 2 (\<lambda>i j. if i = j then 0 else 1)]] ! m ! (comb ! m))
         [0..<length [[eye_mat 2, mk 2 2 (\<lambda>i j. if i = j then 0 else 1)],
            [mk 2 2 (\<lambda>i j. if i = j then 0 else 1)]]])))
       (itertools_product (map (\<lambda>c. [0..<length c])
          [[eye_mat 2, mk 2 2 (\<lambda>i j. if i = j then 0 else 1)],
           [mk 2 2 (\<lambda>i j. if i = j then 0 else 1)]])))
   \<and> length (itertools_product (map (\<lambda>c. [0..<length c])
          [[eye_mat 2, mk 2 2 (\<lambda>i j. if i = j then 0 else 1)],
           [mk 2 2 (\<lambda>i j. if i = j then 0 else 1)]]))
     = prod_list (map length [[eye_mat 2, mk 2 2 (\<lambda>i j. if i = j then 0 else 1)],
           [mk 2 2 (\<lambda>i j. if i = j then 0 else 1)]])"
  by (rule compose_channels_products) (simp_all add: has_shape_def eye_mat_def)

section \<open>Applying a map to the second of two subsystems\<close>

lemma product_single: "itertools_product [xs] = map (\<lambda>j. [j]) xs"
  by (induction xs) simp_all

lemma product_one_then: "itertools_product [[a], xs] = map (\<lambda>j. [a, j]) xs"
  by (simp add: product_single comp_def)

lemma upt_two: "[0..<2] = [0, Suc 0]"
  by (simp add: upt_rec)

lemma subsystem_second:
  "j < length K \<Longrightarrow>
   subsystem_op K [2] [dA, dA] [j] [0..<2] 0 (Sc 1) = Inr (tensor (tensor (Sc 1) (eye dA)) (K ! j))"
  by (simp add: upt_two nth_err_def)

lemma apply_channel_second_unfold:
  "apply_channel K rho (Some [2]) (Some [dA, dA]) False
   = ebind (emap (kraus_term rho)
        (map (\<lambda>j. tensor (tensor (Sc 1) (eye dA)) (K ! j)) [0..<length K])) np_sum0"
proof -
  let ?A = "map (\<lambda>j. tensor (tensor (Sc 1) (eye dA)) (K ! j)) [0..<length K]"
  have "emap (\<lambda>index. subsystem_op K [2] [dA, dA] index [0..<2] 0 (Sc 1))
          (itertools_product (replicate 1 [0..<length K])) = Inr ?A"
    unfolding emap_map product_single One_nat_def replicate_Suc replicate_0
    by (rule emap_Inr) (simp add: subsystem_second)
  moreover have "length [dA, dA] = 2" "length [2::nat] = 1" by simp_all
  ultimately show ?thesis
    by (simp only: apply_channel_def Let_def if_False option.case ebind_Inr)
qed

lemma apply_channel_second_subsystem:
  "apply_channel K rho (Some [2]) (Some [dA, dA]) False
   = ebind (tensor_channels [[eye dA], K]) (\<lambda>T. apply_channel T rho None None False)"
proof -
  let ?A = "map (\<lambda>j. tensor (tensor (Sc 1) (eye dA)) (K ! j)) [0..<length K]"
  have l: "apply_channel K rho (Some [2]) (Some [dA, dA]) False
      = ebind (emap (kraus_term rho) ?A) np_sum0"
    by (rule apply_channel_second_unfold)
  have one: "[0..<1] = [0::nat]" by simp
  have "emap (\<lambda>comb. tensor_loop [[eye dA], K] comb [0..<length comb] (Sc 1))
          (itertools_product [[0..<1], [0..<length K]]) = Inr ?A"
    unfolding one product_one_then emap_map
    by (rule emap_Inr) (simp add: nth_err_def)
  moreover have "map (\<lambda>len. [0..<len]) (map length [[eye dA], K]) = [[0..<1], [0..<length K]]"
    by simp
  ultimately have "tensor_channels [[eye dA], K] = Inr ?A"
    by (simp only: tensor_channels_def Let_def)
  then have r: "ebind (tensor_channels [[eye dA], K]) (\<lambda>T. apply_channel T rho None None False)
      = ebind (emap (kraus_term rho) ?A) np_sum0"
    by (simp only: apply_channel_def Let_def if_False option.case ebind_Inr)
  from l r show ?thesis by simp
qed

lemma kraus_term_shape:
  assumes "nrows A = r" "ncols A = c" "nrows R = c" "ncols R = c"
  shows "kraus_term (Mt R) (Mt A) = Inr (Mt (mm (mm A R) (dag_mat A)))"
  using assms by (simp add: kraus_term_def dag_mat_def)

lemma np_sum0_returns:
  assumes "\<And>x. x \<in> set xs \<Longrightarrow> shape_of x = [r, c]"
  shows "\<exists>v. np_sum0 xs = Inr v"
proof (cases "xs = []")
  case True then show ?thesis by (simp add: np_sum0_def)
next
  case False
  from np_sum0_shape[OF False assms] show ?thesis by blast
qed

text \<open>
  C2: for a Kraus list whose operators all have \<open>dB\<close> rows and \<open>dA\<close> columns and a
  square matrix \<open>rho\<close> of dimension \<open>dA * dA\<close>, applying the map to the second of two
  subsystems of dimensions \<open>[dA, dA]\<close> gives the same result as applying, to the
  whole of \<open>rho\<close>, the tensor product of the identity Kraus list \<open>[eye(dA)]\<close> with the
  map; and that result is a value, not an error. No lower bound on \<open>dA\<close> is needed.
\<close>

theorem apply_channel_partial_consistency:
  assumes K: "\<forall>k \<in> set K. nrows k = dB \<and> ncols k = dA"
    and rho: "nrows rho = dA * dA" "ncols rho = dA * dA"
  shows "apply_channel (map Mt K) (Mt rho) (Some [2]) (Some [dA, dA]) False
       = ebind (tensor_channels [[eye dA], map Mt K])
           (\<lambda>T. apply_channel T (Mt rho) None None False)
     \<and> (\<exists>v. apply_channel (map Mt K) (Mt rho) (Some [2]) (Some [dA, dA]) False = Inr v)"
proof
  show "apply_channel (map Mt K) (Mt rho) (Some [2]) (Some [dA, dA]) False
       = ebind (tensor_channels [[eye dA], map Mt K])
           (\<lambda>T. apply_channel T (Mt rho) None None False)"
    by (rule apply_channel_second_subsystem)
next
  let ?X = "\<lambda>k. kron (scale 1 (eye_mat dA)) k"
  let ?A = "map (\<lambda>j. tensor (tensor (Sc 1) (eye dA)) (map Mt K ! j)) [0..<length (map Mt K)]"
  let ?t = "\<lambda>j. Mt (mm (mm (?X (K ! j)) rho) (dag_mat (?X (K ! j))))"
  have A: "?A = map (\<lambda>j. Mt (?X (K ! j))) [0..<length K]"
    by (simp add: eye_def)
  have "emap (kraus_term (Mt rho)) ?A = Inr (map ?t [0..<length K])"
    unfolding A emap_map
  proof (rule emap_Inr)
    fix j assume "j \<in> set [0..<length K]"
    then have "K ! j \<in> set K" by simp
    with K have "nrows (K ! j) = dB" "ncols (K ! j) = dA" by auto
    then show "kraus_term (Mt rho) (Mt (?X (K ! j))) = Inr (?t j)"
      using rho by (intro kraus_term_shape[where r = "dA * dB" and c = "dA * dA"])
        (simp_all add: kron_def scale_def eye_mat_def)
  qed
  moreover have "\<exists>v. np_sum0 (map ?t [0..<length K]) = Inr v"
    by (rule np_sum0_returns[where r = "dA * dB" and c = "dA * dB"])
       (use K in \<open>auto simp: dag_mat_def kron_def scale_def eye_mat_def\<close>)
  ultimately show "\<exists>v. apply_channel (map Mt K) (Mt rho) (Some [2]) (Some [dA, dA]) False = Inr v"
    by (simp add: apply_channel_second_unfold)
qed

theorem apply_channel_partial_consistency_witness:
  "apply_channel (map Mt [eye_mat 2, mk 2 2 (\<lambda>i j. if i = j then 0 else 1)]) (Mt (eye_mat 4))
       (Some [2]) (Some [2, 2]) False
       = ebind (tensor_channels [[eye 2], map Mt [eye_mat 2, mk 2 2 (\<lambda>i j. if i = j then 0 else 1)]])
           (\<lambda>T. apply_channel T (Mt (eye_mat 4)) None None False)
     \<and> (\<exists>v. apply_channel (map Mt [eye_mat 2, mk 2 2 (\<lambda>i j. if i = j then 0 else 1)])
           (Mt (eye_mat 4)) (Some [2]) (Some [2, 2]) False = Inr v)"
  by (rule apply_channel_partial_consistency[where dB = 2]) (simp_all add: eye_mat_def)

section \<open>Sums of arrays and traces\<close>

lemma foldl_add_entries:
  assumes "nrows M = r" "ncols M = c"
    and "\<And>N. N \<in> set Ms \<Longrightarrow> nrows N = r \<and> ncols N = c"
  shows "\<exists>S. foldl nd_add (Mt M) (map Mt Ms) = Mt S \<and> nrows S = r \<and> ncols S = c
     \<and> (Ms \<noteq> [] \<longrightarrow> wf_mat S)
     \<and> (\<forall>i<r. \<forall>j<c. ent S i j = ent M i j + sum_list (map (\<lambda>N. ent N i j) Ms))"
  using assms
proof (induction Ms arbitrary: M)
  case Nil then show ?case by simp
next
  case (Cons N Ms)
  have N: "nrows N = r" "ncols N = c" using Cons.prems(3)[of N] by simp_all
  have "\<exists>S. foldl nd_add (Mt (add_mat M N)) (map Mt Ms) = Mt S \<and> nrows S = r \<and> ncols S = c
     \<and> (Ms \<noteq> [] \<longrightarrow> wf_mat S)
     \<and> (\<forall>i<r. \<forall>j<c. ent S i j = ent (add_mat M N) i j + sum_list (map (\<lambda>N. ent N i j) Ms))"
  proof (rule Cons.IH)
    show "nrows (add_mat M N) = r" using Cons.prems(1) by (simp add: add_mat_def)
    show "ncols (add_mat M N) = c" using Cons.prems(2) by (simp add: add_mat_def)
    show "nrows N' = r \<and> ncols N' = c" if "N' \<in> set Ms" for N'
      using Cons.prems(3)[of N'] that by simp
  qed
  then obtain S where S: "foldl nd_add (Mt (add_mat M N)) (map Mt Ms) = Mt S"
    "nrows S = r" "ncols S = c" "Ms \<noteq> [] \<longrightarrow> wf_mat S"
    "\<forall>i<r. \<forall>j<c. ent S i j = ent (add_mat M N) i j + sum_list (map (\<lambda>N. ent N i j) Ms)"
    by blast
  have wf: "wf_mat S"
  proof (cases "Ms = []")
    case True with S(1) have "S = add_mat M N" by simp
    then show ?thesis by (simp add: add_mat_def)
  next
    case False with S(4) show ?thesis by simp
  qed
  have "ent S i j = ent M i j + sum_list (map (\<lambda>N. ent N i j) (N # Ms))" if "i < r" "j < c" for i j
    using S(5) that Cons.prems(1,2) by (simp add: add_mat_def add.assoc)
  then show ?case using S wf by simp
qed


lemma np_sum0_entries_wf:
  assumes ne: "Ms \<noteq> []"
    and shp: "\<And>N. N \<in> set Ms \<Longrightarrow> nrows N = r \<and> ncols N = c \<and> wf_mat N"
  shows "\<exists>S. np_sum0 (map Mt Ms) = Inr (Mt S) \<and> nrows S = r \<and> ncols S = c \<and> wf_mat S
     \<and> (\<forall>i<r. \<forall>j<c. ent S i j = sum_list (map (\<lambda>N. ent N i j) Ms))"
proof -
  from ne obtain M rest where Ms: "Ms = M # rest" by (cases Ms) auto
  have M: "nrows M = r" "ncols M = c" "wf_mat M" using shp[of M] Ms by simp_all
  have rest: "nrows N = r \<and> ncols N = c" if "N \<in> set rest" for N
    using shp[of N] Ms that by simp
  from foldl_add_entries[OF M(1,2) rest] obtain S where S: "foldl nd_add (Mt M) (map Mt rest) = Mt S"
    "nrows S = r" "ncols S = c" "rest \<noteq> [] \<longrightarrow> wf_mat S"
    "\<forall>i<r. \<forall>j<c. ent S i j = ent M i j + sum_list (map (\<lambda>N. ent N i j) rest)"
    by blast
  have wf: "wf_mat S"
  proof (cases "rest = []")
    case True with S(1) have "S = M" by simp
    with M show ?thesis by simp
  next
    case False with S(4) show ?thesis by simp
  qed
  have "list_all (\<lambda>y. shape_of y = shape_of (Mt M)) (map Mt rest)"
    using rest M by (simp add: list_all_iff)
  then have "np_sum0 (map Mt Ms) = Inr (Mt S)"
    using S(1) by (simp add: np_sum0_def Ms)
  then show ?thesis using S(2,3,5) wf Ms by auto
qed



lemma sum_list_cong_set: "(\<And>x. x \<in> set xs \<Longrightarrow> f x = g x) \<Longrightarrow> sum_list (map f xs) = sum_list (map g xs)"
  by (induction xs) simp_all


lemma ent_dag: "i < ncols A \<Longrightarrow> j < nrows A \<Longrightarrow> ent (dag_mat A) i j = cnj (ent A j i)"
  by (simp add: dag_mat_def)




section \<open>The Choi matrix and the natural representation\<close>

lemma div_mod_unique:
  assumes "y < (c::nat)"
  shows "(m div c = x \<and> m mod c = y) \<longleftrightarrow> m = x * c + y"
proof
  assume "m div c = x \<and> m mod c = y"
  then have "x * c + y = m div c * c + m mod c" by simp
  then show "m = x * c + y" by simp
next
  assume "m = x * c + y"
  with assms show "m div c = x \<and> m mod c = y" by simp
qed

lemma sum_pick:
  assumes "x < n" and "y < (c::nat)"
  shows "(\<Sum>m<n * c. if m div c = x \<and> m mod c = y then g m else (0::complex)) = g (x * c + y)"
proof -
  have "(\<Sum>m<n * c. if m div c = x \<and> m mod c = y then g m else 0)
      = (\<Sum>m<n * c. if m = x * c + y then g m else 0)"
    by (intro sum.cong refl) (simp add: div_mod_unique[OF assms(2)])
  also have "\<dots> = g (x * c + y)"
    using flat_index_less[OF assms] by simp
  finally show ?thesis .
qed

lemma div_less_of_flat: "p < a * (b::nat) \<Longrightarrow> p div b < a"
  by (simp add: less_mult_imp_div_less)

lemma mod_less_of_flat: "p < a * (b::nat) \<Longrightarrow> p mod b < b"
  by (cases b) auto

text \<open>The operator that the subsystem branch builds for one Kraus operator, the identity
  on the first subsystem tensored with the operator.\<close>

lemma ent_second_op:
  assumes k: "nrows k = dB" "ncols k = dA" and p: "p < dA * dB" and m: "m < dA * dA"
  shows "ent (kron (scale 1 (eye_mat dA)) k) p m
       = (if p div dB = m div dA then ent k (p mod dB) (m mod dA) else 0)"
proof -
  have "p div dB < dA" "m div dA < dA" using p m by (simp_all add: div_less_of_flat)
  then have "ent (scale 1 (eye_mat dA)) (p div dB) (m div dA) = (if p div dB = m div dA then 1 else 0)"
    by (simp add: scale_def eye_mat_def)
  then show ?thesis using k p m by (simp add: kron_def eye_mat_def scale_def)
qed

lemma ent_max_ent:
  "i < d * d \<Longrightarrow> j < d * d \<Longrightarrow>
   ent (mk (d * d) (d * d) (\<lambda>i j. if i div d = i mod d \<and> j div d = j mod d then 1 else 0)) i j
     = (if i div d = i mod d \<and> j div d = j mod d then 1 else 0)"
  by simp

lemma choi_term_entry:
  assumes k: "nrows k = dB" "ncols k = dA" and p: "p < dA * dB" and q: "q < dA * dB"
  defines "G \<equiv> mk (dA * dA) (dA * dA) (\<lambda>i j. if i div dA = i mod dA \<and> j div dA = j mod dA then 1 else 0)"
  defines "X \<equiv> kron (scale 1 (eye_mat dA)) k"
  shows "ent (mm (mm X G) (dag_mat X)) p q
       = ent k (p mod dB) (p div dB) * cnj (ent k (q mod dB) (q div dB))"
proof -
  have X: "nrows X = dA * dB" "ncols X = dA * dA"
    using k by (simp_all add: X_def kron_def scale_def eye_mat_def)
  have G: "nrows G = dA * dA" "ncols G = dA * dA" by (simp_all add: G_def)
  have pd: "p div dB < dA" and qd: "q div dB < dA" using p q by (simp_all add: div_less_of_flat)
  have XG: "ent (mm X G) p m = (if m div dA = m mod dA then ent k (p mod dB) (p div dB) else 0)"
    if m: "m < dA * dA" for m
  proof -
    have "ent (mm X G) p m = (\<Sum>l<dA * dA. ent X p l * ent G l m)"
      using X G p m by (simp add: ent_mm)
    also have "\<dots> = (\<Sum>l<dA * dA. if l div dA = p div dB \<and> l mod dA = p div dB
          then (if m div dA = m mod dA then ent k (p mod dB) (p div dB) else 0) else 0)"
    proof (rule sum.cong[OF refl])
      fix l assume "l \<in> {..<dA * dA}"
      then have l: "l < dA * dA" by simp
      have "ent X p l = (if p div dB = l div dA then ent k (p mod dB) (l mod dA) else 0)"
        unfolding X_def by (rule ent_second_op[OF k p l])
      moreover have "ent G l m = (if l div dA = l mod dA \<and> m div dA = m mod dA then 1 else 0)"
        unfolding G_def using l m by (rule ent_max_ent)
      ultimately show "ent X p l * ent G l m = (if l div dA = p div dB \<and> l mod dA = p div dB
          then (if m div dA = m mod dA then ent k (p mod dB) (p div dB) else 0) else 0)"
        by auto
    qed
    also have "\<dots> = (if m div dA = m mod dA then ent k (p mod dB) (p div dB) else 0)"
      using pd by (rule sum_pick[OF pd])
    finally show ?thesis .
  qed
  have "ent (mm (mm X G) (dag_mat X)) p q = (\<Sum>m<dA * dA. ent (mm X G) p m * ent (dag_mat X) m q)"
    using X G p q by (simp add: ent_mm dag_mat_def)
  also have "\<dots> = (\<Sum>m<dA * dA. if m div dA = q div dB \<and> m mod dA = q div dB
        then ent k (p mod dB) (p div dB) * cnj (ent k (q mod dB) (q div dB)) else 0)"
  proof (rule sum.cong[OF refl])
    fix m assume "m \<in> {..<dA * dA}"
    then have m: "m < dA * dA" by simp
    have "ent (dag_mat X) m q = cnj (ent X q m)"
      using X m q by (simp add: ent_dag)
    also have "ent X q m = (if q div dB = m div dA then ent k (q mod dB) (m mod dA) else 0)"
      unfolding X_def by (rule ent_second_op[OF k q m])
    finally show "ent (mm X G) p m * ent (dag_mat X) m q = (if m div dA = q div dB \<and> m mod dA = q div dB
        then ent k (p mod dB) (p div dB) * cnj (ent k (q mod dB) (q div dB)) else 0)"
      using XG[OF m] by auto
  qed
  also have "\<dots> = ent k (p mod dB) (p div dB) * cnj (ent k (q mod dB) (q div dB))"
    using qd by (rule sum_pick[OF qd])
  finally show ?thesis .
qed

lemma flat_div: "i < (c::nat) \<Longrightarrow> (j * c + i) div c = j"
  by simp

lemma flat_mod: "i < (c::nat) \<Longrightarrow> (j * c + i) mod c = i"
  by simp

lemma unravel4:
  assumes i: "i < dB * dB" and j: "j < dA * dA"
  shows "unravel [dA, dA, dB, dB] (j * (dB * dB) + i) = [j div dA, j mod dA, i div dB, i mod dB]"
proof -
  let ?k = "j * (dB * dB) + i"
  have k_div: "?k div (dB * dB) = j" using i by (rule flat_div)
  have k_mod: "?k mod (dB * dB) = i" using i by (rule flat_mod)
  have 1: "?k div (dA * (dB * dB)) = j div dA"
  proof -
    have "?k div (dA * (dB * dB)) = ?k div ((dB * dB) * dA)" by (simp add: mult.commute)
    also have "\<dots> = ?k div (dB * dB) div dA" by (rule div_mult2_eq)
    finally show ?thesis using k_div by simp
  qed
  have 2: "?k mod (dA * (dB * dB)) = (j mod dA) * (dB * dB) + i"
  proof -
    have "?k mod (dA * (dB * dB)) = ?k mod ((dB * dB) * dA)" by (simp add: mult.commute)
    also have "\<dots> = (dB * dB) * (?k div (dB * dB) mod dA) + ?k mod (dB * dB)"
      by (rule mod_mult2_eq)
    finally show ?thesis using k_div k_mod by (simp add: mult.commute)
  qed
  have 3: "((j mod dA) * (dB * dB) + i) div (dB * dB) = j mod dA" using i by (rule flat_div)
  have 4: "((j mod dA) * (dB * dB) + i) mod (dB * dB) = i" using i by (rule flat_mod)
  show ?thesis
    by (simp only: unravel.simps prod_list.Cons prod_list.Nil mult_1_right 1 2 3 4 div_by_1)
qed

lemma ravel4:
  "ravel [dA, dB, dA, dB] [a, b, a', b'] = (a * dB + b) * (dA * dB) + (a' * dB + b')"
  by (simp add: ravel_def algebra_simps)

lemma transposed_axes:
  "map (\<lambda>ax. [a, a', b, b'] ! position_of ax [0, 2, 1, 3]) [0..<length [dA, dB, dA, dB]]
     = [a, b, a', b']"
  by (simp add: position_of_def upt_rec)

lemma choi_to_natural_entries:
  assumes C: "wf_mat C" "nrows C = dA * dB" "ncols C = dA * dB"
  shows "choi_to_natural (Mt C) dA dB
     = Inr (Mt (mk (dB * dB) (dA * dA)
         (\<lambda>i j. ent C ((j div dA) * dB + i div dB) ((j mod dA) * dB + i mod dB))))"
proof -
  let ?t = "([dA, dB, dA, dB], elems C)"
  let ?data = "snd (np_transpose [0, 2, 1, 3] ?t)"
  let ?M = "\<lparr>nrows = dA * dA, ncols = dB * dB, elems = ?data\<rparr>"
  have len: "length (elems C) = dA * dB * (dA * dB)"
    using C by (simp add: wf_mat_def)
  have r1: "np_reshape (np_array (Mt C)) [dA, dB, dA, dB] = Inr ?t"
    using len by (simp add: np_reshape_def)
  have shp: "fst (np_transpose [0, 2, 1, 3] ?t) = [dA, dA, dB, dB]"
    by (simp add: np_transpose_def Let_def)
  have dlen: "length ?data = dA * dA * (dB * dB)"
    by (simp add: np_transpose_def Let_def)
  have r2: "np_reshape (np_transpose [0, 2, 1, 3] ?t) [dA * dA, dB * dB]
      = Inr ([dA * dA, dB * dB], ?data)"
    using dlen by (simp add: np_reshape_def)
  have res: "choi_to_natural (Mt C) dA dB = Inr (Mt (transpose_mat ?M))"
    unfolding choi_to_natural_def r1 ebind_Inr r2 by simp
  have "transpose_mat ?M = mk (dB * dB) (dA * dA)
         (\<lambda>i j. ent C ((j div dA) * dB + i div dB) ((j mod dA) * dB + i mod dB))"
    unfolding transpose_mat_def mat.simps
  proof (rule mk_cong)
    fix i j assume i: "i < dB * dB" and j: "j < dA * dA"
    let ?k = "j * (dB * dB) + i"
    have k: "?k < dA * dA * (dB * dB)" using flat_index_less[OF j i] .
    have "ent ?M j i = ?data ! ?k" by (simp add: ent_def)
    also have "\<dots> = elems C ! ravel [dA, dB, dA, dB]
        (map (\<lambda>ax. unravel [dA, dA, dB, dB] ?k ! position_of ax [0, 2, 1, 3])
           [0..<length [dA, dB, dA, dB]])"
      using k by (simp add: np_transpose_def Let_def)
    also have "\<dots> = elems C ! (((j div dA) * dB + i div dB) * (dA * dB) + ((j mod dA) * dB + i mod dB))"
      by (simp only: unravel4[OF i j] transposed_axes ravel4)
    also have "\<dots> = ent C ((j div dA) * dB + i div dB) ((j mod dA) * dB + i mod dB)"
      using C by (simp add: ent_def)
    finally show "ent ?M j i = ent C ((j div dA) * dB + i div dB) ((j mod dA) * dB + i mod dB)" .
  qed
  with res show ?thesis by simp
qed

lemma ent_kron:
  "i < nrows A * nrows B \<Longrightarrow> j < ncols A * ncols B \<Longrightarrow>
   ent (kron A B) i j = ent A (i div nrows B) (j div ncols B) * ent B (i mod nrows B) (j mod ncols B)"
  by (simp add: kron_def)

lemma natural_term_entry:
  assumes k: "nrows k = dB" "ncols k = dA" and i: "i < dB * dB" and j: "j < dA * dA"
  shows "ent (kron k (conj_mat k)) i j
       = ent k (i div dB) (j div dA) * cnj (ent k (i mod dB) (j mod dA))"
proof -
  have "i mod dB < dB" "j mod dA < dA" using i j by (simp_all add: mod_less_of_flat)
  then have "ent (conj_mat k) (i mod dB) (j mod dA) = cnj (ent k (i mod dB) (j mod dA))"
    using k by (simp add: conj_mat_def)
  then show ?thesis using k i j by (simp add: ent_kron conj_mat_def)
qed

text \<open>
  C3, as stated: for every Kraus list whose operators all have shape \<open>dB\<close> by \<open>dA\<close>,
  \<^verbatim>\<open>choi_to_natural(choi_representation(K, dA), dA, dB)\<close> equals
  \<^verbatim>\<open>natural_representation(K)\<close>. It does not for the empty list: there the Choi
  representation is the scalar \<open>0\<close> that \<^verbatim>\<open>np.sum\<close> gives for an empty list, which
  cannot be reshaped to \<open>(2, 2, 2, 2)\<close>, while the natural representation is that
  scalar.
\<close>

theorem choi_to_natural_empty_disagrees:
  "ebind (choi_representation [] 2) (\<lambda>C. choi_to_natural C 2 2) = Inl ValueError
   \<and> natural_representation [] = Inr (Sc 0)"
  by (simp add: choi_representation_def apply_channel_def natural_representation_def
      np_sum0_def choi_to_natural_def np_reshape_def)

text \<open>
  C3, amended: for every nonempty Kraus list whose operators all have \<open>dB\<close> rows and
  \<open>dA\<close> columns, both routes return a value and the values are equal: the index
  reshuffle of the Choi matrix (reshape to \<open>(dA, dB, dA, dB)\<close>, axes to
  \<open>(0, 2, 1, 3)\<close>, reshape to \<open>dA^2\<close> by \<open>dB^2\<close>, transpose) is the sum of the
  \<open>K_i \<otimes> conj(K_i)\<close>.
\<close>

theorem choi_to_natural_agrees:
  assumes ne: "K \<noteq> []" and K: "\<forall>k \<in> set K. nrows k = dB \<and> ncols k = dA"
  shows "\<exists>N. natural_representation (map Mt K) = Inr N
     \<and> ebind (choi_representation (map Mt K) dA) (\<lambda>C. choi_to_natural C dA dB) = Inr N"
proof -
  let ?G = "mk (dA * dA) (dA * dA) (\<lambda>i j. if i div dA = i mod dA \<and> j div dA = j mod dA then 1 else 0)"
  let ?X = "\<lambda>k. kron (scale 1 (eye_mat dA)) k"
  let ?T = "\<lambda>k. mm (mm (?X k) ?G) (dag_mat (?X k))"
  let ?W = "\<lambda>k. kron k (conj_mat k)"
  let ?e = "\<lambda>i j k. ent k (i div dB) (j div dA) * cnj (ent k (i mod dB) (j mod dA))"
  have shp: "nrows k = dB \<and> ncols k = dA" if "k \<in> set K" for k using K that by blast
  \<comment> \<open>the natural representation\<close>
  have nat: "natural_representation (map Mt K) = np_sum0 (map Mt (map ?W K))"
    by (simp add: natural_representation_def comp_def)
  have "\<exists>S. np_sum0 (map Mt (map ?W K)) = Inr (Mt S) \<and> nrows S = dB * dB \<and> ncols S = dA * dA \<and> wf_mat S
     \<and> (\<forall>i<dB * dB. \<forall>j<dA * dA. ent S i j = sum_list (map (\<lambda>N. ent N i j) (map ?W K)))"
  proof (rule np_sum0_entries_wf)
    show "map ?W K \<noteq> []" using ne by simp
    show "nrows N = dB * dB \<and> ncols N = dA * dA \<and> wf_mat N" if "N \<in> set (map ?W K)" for N
      using that shp by (auto simp: kron_def conj_mat_def)
  qed
  then obtain N where N: "np_sum0 (map Mt (map ?W K)) = Inr (Mt N)" "nrows N = dB * dB"
      "ncols N = dA * dA" "wf_mat N"
    and Nent: "\<And>i j. i < dB * dB \<Longrightarrow> j < dA * dA \<Longrightarrow> ent N i j = sum_list (map (\<lambda>k. ent (?W k) i j) K)"
    by (auto simp: comp_def)
  have Nent': "ent N i j = sum_list (map (?e i j) K)" if i: "i < dB * dB" and j: "j < dA * dA" for i j
    unfolding Nent[OF i j]
  proof (rule sum_list_cong_set)
    fix k assume "k \<in> set K"
    from shp[OF this] show "ent (?W k) i j = ?e i j k"
      by (intro natural_term_entry i j) simp_all
  qed
  \<comment> \<open>the Choi matrix\<close>
  have E1: "emap (kraus_term (max_ent dA))
          (map (\<lambda>j. tensor (tensor (Sc 1) (eye dA)) (map Mt K ! j)) [0..<length (map Mt K)])
      = Inr (map (\<lambda>j. Mt (?T (K ! j))) [0..<length K])"
    unfolding emap_map length_map
  proof (rule emap_Inr)
    fix j assume "j \<in> set [0..<length K]"
    then have j: "j < length K" by simp
    then have "K ! j \<in> set K" by simp
    from shp[OF this]
    have "kraus_term (Mt ?G) (Mt (?X (K ! j))) = Inr (Mt (?T (K ! j)))"
      by (intro kraus_term_shape[where r = "dA * dB" and c = "dA * dA"])
         (simp_all add: kron_def scale_def eye_mat_def)
    then show "kraus_term (max_ent dA) (tensor (tensor (Sc 1) (eye dA)) (map Mt K ! j))
        = Inr (Mt (?T (K ! j)))"
      using j by (simp add: max_ent_def eye_def)
  qed
  have E2: "map (\<lambda>j. Mt (?T (K ! j))) [0..<length K] = map Mt (map ?T K)"
    by (intro nth_equalityI) simp_all
  have choi: "choi_representation (map Mt K) dA = np_sum0 (map Mt (map ?T K))"
    by (simp only: choi_representation_def Let_def apply_channel_second_unfold E1 ebind_Inr E2)
  have "\<exists>S. np_sum0 (map Mt (map ?T K)) = Inr (Mt S) \<and> nrows S = dA * dB \<and> ncols S = dA * dB \<and> wf_mat S
     \<and> (\<forall>i<dA * dB. \<forall>j<dA * dB. ent S i j = sum_list (map (\<lambda>N. ent N i j) (map ?T K)))"
  proof (rule np_sum0_entries_wf)
    show "map ?T K \<noteq> []" using ne by simp
    show "nrows N = dA * dB \<and> ncols N = dA * dB \<and> wf_mat N" if "N \<in> set (map ?T K)" for N
      using that shp by (auto simp: kron_def scale_def eye_mat_def dag_mat_def)
  qed
  then obtain C where C: "np_sum0 (map Mt (map ?T K)) = Inr (Mt C)" "nrows C = dA * dB"
      "ncols C = dA * dB" "wf_mat C"
    and Cent: "\<And>p q. p < dA * dB \<Longrightarrow> q < dA * dB \<Longrightarrow> ent C p q = sum_list (map (\<lambda>k. ent (?T k) p q) K)"
    by (auto simp: comp_def)
  \<comment> \<open>reshuffling the Choi matrix\<close>
  have "mk (dB * dB) (dA * dA)
         (\<lambda>i j. ent C ((j div dA) * dB + i div dB) ((j mod dA) * dB + i mod dB)) = mk (dB * dB) (dA * dA) (ent N)"
  proof (rule mk_cong)
    fix i j assume i: "i < dB * dB" and j: "j < dA * dA"
    let ?p = "(j div dA) * dB + i div dB" and ?q = "(j mod dA) * dB + i mod dB"
    have b: "i div dB < dB" "i mod dB < dB" using i by (simp_all add: div_less_of_flat mod_less_of_flat)
    have a: "j div dA < dA" "j mod dA < dA" using j by (simp_all add: div_less_of_flat mod_less_of_flat)
    have p: "?p < dA * dB" using flat_index_less[OF a(1) b(1)] .
    have q: "?q < dA * dB" using flat_index_less[OF a(2) b(2)] .
    have pq: "?p mod dB = i div dB" "?p div dB = j div dA" "?q mod dB = i mod dB" "?q div dB = j mod dA"
      using b by simp_all
    have "ent C ?p ?q = sum_list (map (\<lambda>k. ent (?T k) ?p ?q) K)"
      by (rule Cent[OF p q])
    also have "\<dots> = sum_list (map (?e i j) K)"
    proof (rule sum_list_cong_set)
      fix k assume "k \<in> set K"
      from shp[OF this] have k: "nrows k = dB" "ncols k = dA" by simp_all
      show "ent (?T k) ?p ?q = ?e i j k"
        unfolding choi_term_entry[OF k p q] pq ..
    qed
    also have "\<dots> = ent N i j" by (rule Nent'[OF i j, symmetric])
    finally show "ent C ?p ?q = ent N i j" .
  qed
  also have "\<dots> = N" using mk_ent[OF N(4)] by (simp only: N(2,3))
  finally have "choi_to_natural (Mt C) dA dB = Inr (Mt N)"
    using choi_to_natural_entries[OF C(4,2,3)] by simp
  then show ?thesis using nat N(1) choi C(1) by simp
qed

theorem choi_to_natural_agrees_witness:
  "\<exists>N. natural_representation
        (map Mt [\<lparr>nrows = 2, ncols = 2, elems = [1, 0, 0, 0]\<rparr>, \<lparr>nrows = 2, ncols = 2, elems = [0, 1, \<i>, 0]\<rparr>])
      = Inr N
     \<and> ebind (choi_representation
        (map Mt [\<lparr>nrows = 2, ncols = 2, elems = [1, 0, 0, 0]\<rparr>, \<lparr>nrows = 2, ncols = 2, elems = [0, 1, \<i>, 0]\<rparr>]) 2)
        (\<lambda>C. choi_to_natural C 2 2) = Inr N"
  by (rule choi_to_natural_agrees) simp_all

section \<open>Examples\<close>

text \<open>The functions evaluated on small inputs: a dephasing map, a product that numpy
  rejects, the order of composition (the first map in the list acts first), tensor
  products and powers, and the three representations of the map with the single Kraus
  operator \<open>[1, i]\<close>.\<close>

lemma apply_channel_dephasing_example:
  "apply_channel
      [Mt \<lparr>nrows = 2, ncols = 2, elems = [1, 0, 0, 0]\<rparr>, Mt \<lparr>nrows = 2, ncols = 2, elems = [0, 0, 0, 1]\<rparr>]
      (Mt \<lparr>nrows = 2, ncols = 2, elems = [3 / 4, \<i> / 4, - \<i> / 4, 1 / 4]\<rparr>) None None False
   = Inr (Mt \<lparr>nrows = 2, ncols = 2, elems = [3 / 4, 0, 0, 1 / 4]\<rparr>)"
  by code_simp

lemma apply_channel_shape_mismatch_example:
  "apply_channel [Mt \<lparr>nrows = 1, ncols = 1, elems = [1]\<rparr>]
      (Mt \<lparr>nrows = 2, ncols = 2, elems = [1, 0, 0, 0]\<rparr>) None None False = Inl ValueError"
  by code_simp

lemma compose_channels_order_example:
  "compose_channels
      [[Mt \<lparr>nrows = 2, ncols = 2, elems = [0, 1, 1, 0]\<rparr>],
       [Mt \<lparr>nrows = 2, ncols = 2, elems = [1, 0, 0, 0]\<rparr>, Mt \<lparr>nrows = 2, ncols = 2, elems = [0, 0, 0, 1]\<rparr>]]
   = Inr [Mt \<lparr>nrows = 2, ncols = 2, elems = [0, 1, 0, 0]\<rparr>,
          Mt \<lparr>nrows = 2, ncols = 2, elems = [0, 0, 1, 0]\<rparr>]"
  by code_simp

lemma tensor_channels_example:
  "tensor_channels
      [[Mt \<lparr>nrows = 1, ncols = 2, elems = [1, 2]\<rparr>],
       [Mt \<lparr>nrows = 2, ncols = 1, elems = [1, \<i>]\<rparr>, Mt \<lparr>nrows = 2, ncols = 1, elems = [0, 3]\<rparr>]]
   = Inr [Mt \<lparr>nrows = 2, ncols = 2, elems = [1, 2, \<i>, 2 * \<i>]\<rparr>,
          Mt \<lparr>nrows = 2, ncols = 2, elems = [0, 0, 3, 6]\<rparr>]"
  by code_simp

lemma n_channel_uses_zero_example:
  "n_channel_uses [Mt \<lparr>nrows = 1, ncols = 1, elems = [2]\<rparr>] 0 = Inr [Sc 1]"
  by code_simp

lemma n_channel_uses_example:
  "n_channel_uses [Mt \<lparr>nrows = 1, ncols = 2, elems = [1, 2]\<rparr>, Mt \<lparr>nrows = 1, ncols = 2, elems = [0, \<i>]\<rparr>] 2
   = Inr [Mt \<lparr>nrows = 1, ncols = 4, elems = [1, 2, 2, 4]\<rparr>,
          Mt \<lparr>nrows = 1, ncols = 4, elems = [0, \<i>, 0, 2 * \<i>]\<rparr>,
          Mt \<lparr>nrows = 1, ncols = 4, elems = [0, 0, \<i>, 2 * \<i>]\<rparr>,
          Mt \<lparr>nrows = 1, ncols = 4, elems = [0, 0, 0, - 1]\<rparr>]"
  by code_simp

lemma choi_representation_example:
  "choi_representation [Mt \<lparr>nrows = 1, ncols = 2, elems = [1, \<i>]\<rparr>] 2
   = Inr (Mt \<lparr>nrows = 2, ncols = 2, elems = [1, - \<i>, \<i>, 1]\<rparr>)"
  by code_simp

lemma choi_to_natural_example:
  "choi_to_natural (Mt \<lparr>nrows = 2, ncols = 2, elems = [1, - \<i>, \<i>, 1]\<rparr>) 2 1
   = Inr (Mt \<lparr>nrows = 1, ncols = 4, elems = [1, - \<i>, \<i>, 1]\<rparr>)"
  by code_simp

lemma natural_representation_example:
  "natural_representation [Mt \<lparr>nrows = 1, ncols = 2, elems = [1, \<i>]\<rparr>]
   = Inr (Mt \<lparr>nrows = 1, ncols = 4, elems = [1, - \<i>, \<i>, 1]\<rparr>)"
  by code_simp

end
